theory Spec2Isabelle
  imports Main
begin

section \<open>Strings of the TypeScript sources\<close>

text \<open>
  A JavaScript string is a sequence of UTF-16 code units. The model keeps a string as a
  \<open>char list\<close>, one \<open>char\<close> per code unit below 256. Every literal, regular expression and
  comparison of the modelled sources is ASCII; the code units from 128 on are neither word
  characters nor letters that fold onto an ASCII letter, which is how ECMAScript treats all
  code units outside ASCII in a pattern without the \<open>u\<close> flag.
\<close>

definition codeUnit :: "char \<Rightarrow> nat" where
  "codeUnit c = of_char c"

text \<open>The class \<open>\w\<close> of a regular expression: \<open>[A-Za-z0-9_]\<close>.\<close>

definition isWordChar :: "char \<Rightarrow> bool" where
  "isWordChar c =
     ((97 \<le> codeUnit c \<and> codeUnit c \<le> 122) \<or> (65 \<le> codeUnit c \<and> codeUnit c \<le> 90) \<or>
      (48 \<le> codeUnit c \<and> codeUnit c \<le> 57) \<or> codeUnit c = 95)"

text \<open>
  \<open>Canonicalize\<close> of a pattern with the \<open>i\<close> flag: both the pattern character and the input
  character are mapped to upper case and compared. A code unit from 128 on never
  canonicalizes to an ASCII one, so it is left as it is.
\<close>

definition canonicalize :: "char \<Rightarrow> nat" where
  "canonicalize c =
     (if 97 \<le> codeUnit c \<and> codeUnit c \<le> 122 then codeUnit c - 32 else codeUnit c)"

text \<open>
  \<open>String.prototype.trim\<close>: white space and line terminators are removed at both ends. Below
  256 they are TAB, LF, VT, FF, CR, SPACE and NBSP.
\<close>

definition isWhiteSpace :: "char \<Rightarrow> bool" where
  "isWhiteSpace c = (codeUnit c \<in> {9, 10, 11, 12, 13, 32, 160})"

definition trim :: "string \<Rightarrow> string" where
  "trim s = rev (dropWhile isWhiteSpace (rev (dropWhile isWhiteSpace s)))"

text \<open>\<open>String.prototype.toLowerCase\<close> on the ASCII letters.\<close>

definition toLowerChar :: "char \<Rightarrow> char" where
  "toLowerChar c =
     (case map_of (zip ''ABCDEFGHIJKLMNOPQRSTUVWXYZ'' ''abcdefghijklmnopqrstuvwxyz'') c of
        Some l \<Rightarrow> l
      | None \<Rightarrow> c)"

definition toLowerCase :: "string \<Rightarrow> string" where
  "toLowerCase s = map toLowerChar s"

text \<open>
  The truth value of an optional string: \<open>undefined\<close>, \<open>null\<close> and the empty string are
  falsy, every other string is truthy.
\<close>

fun truthy :: "string option \<Rightarrow> bool" where
  "truthy None = False"
| "truthy (Some s) = (s \<noteq> [])"

text \<open>\<open>a || b\<close> on optional strings.\<close>

definition orElse :: "string option \<Rightarrow> string option \<Rightarrow> string option" where
  "orElse a b = (if truthy a then a else b)"

section \<open>The two pattern tests of \<open>handleMessage\<close>\<close>

text \<open>
  \<^verbatim>\<open>
  const isAffirmative = (s: string) =>
    /\b(yes|yep|yeah|y|ok|okay|sure|go ahead|confirm|proceed)\b/i.test(s);
  const saidDone = (s: string) =>
    /\b(done|completed|complete|finished|resolved|closed)\b/i.test(s);
  \<close>
  Both patterns have the shape \<open>\b(w1|...|wn)\b\<close> with the \<open>i\<close> flag. A position of the
  matcher is the code unit before it (\<open>None\<close> at the start of the input) and the rest of
  the input.
\<close>

type_synonym position = "char option \<times> string"

fun isWordAt :: "char option \<Rightarrow> bool" where
  "isWordAt None = False"
| "isWordAt (Some c) = isWordChar c"

fun nextChar :: "string \<Rightarrow> char option" where
  "nextChar [] = None"
| "nextChar (c # cs) = Some c"

text \<open>The assertion \<open>\b\<close>: exactly one side of the position is a word character.\<close>

fun atBoundary :: "position \<Rightarrow> bool" where
  "atBoundary (prev, s) = (isWordAt prev \<noteq> isWordAt (nextChar s))"

text \<open>One alternative, a literal, matched from a position, ignoring case.\<close>

fun matchLiteral :: "string \<Rightarrow> position \<Rightarrow> position option" where
  "matchLiteral [] pos = Some pos"
| "matchLiteral (p # ps) (prev, []) = None"
| "matchLiteral (p # ps) (prev, c # cs) =
     (if canonicalize c = canonicalize p then matchLiteral ps (Some c, cs) else None)"

text \<open>
  \<open>\b(w1|...|wn)\b\<close> anchored at a position. The matcher backtracks over the alternatives,
  so the pattern matches there when some alternative matches and ends at a boundary.
\<close>

definition matchHere :: "string list \<Rightarrow> position \<Rightarrow> bool" where
  "matchHere alts pos =
     (atBoundary pos \<and>
      list_ex (\<lambda>w. case matchLiteral w pos of None \<Rightarrow> False | Some pos' \<Rightarrow> atBoundary pos') alts)"

text \<open>\<open>RegExp.prototype.test\<close>: the start positions are tried from left to right.\<close>

fun searchFrom :: "string list \<Rightarrow> position \<Rightarrow> bool" where
  "searchFrom alts (prev, []) = matchHere alts (prev, [])"
| "searchFrom alts (prev, c # cs) =
     (matchHere alts (prev, c # cs) \<or> searchFrom alts (Some c, cs))"

definition regexTest :: "string list \<Rightarrow> string \<Rightarrow> bool" where
  "regexTest alts s = searchFrom alts (None, s)"

definition affirmativeAlternatives :: "string list" where
  "affirmativeAlternatives =
     [''yes'', ''yep'', ''yeah'', ''y'', ''ok'', ''okay'', ''sure'', ''go ahead'', ''confirm'',
      ''proceed'']"

definition doneAlternatives :: "string list" where
  "doneAlternatives =
     [''done'', ''completed'', ''complete'', ''finished'', ''resolved'', ''closed'']"

definition isAffirmative :: "string \<Rightarrow> bool" where
  "isAffirmative s = regexTest affirmativeAlternatives s"

definition saidDone :: "string \<Rightarrow> bool" where
  "saidDone s = regexTest doneAlternatives s"

section \<open>The documented phrase sets\<close>

text \<open>
  The specification's side of the two detectors: an input contains a phrase as a whole word
  when the phrase occurs in it, letters compared without regard to case, with no word
  character directly before or after the occurrence.
\<close>

definition sameIgnoringCase :: "string \<Rightarrow> string \<Rightarrow> bool" where
  "sameIgnoringCase a b = (map canonicalize a = map canonicalize b)"

definition containsWholeWord :: "string \<Rightarrow> string \<Rightarrow> bool" where
  "containsWholeWord w s =
     (\<exists>pre mid post. s = pre @ mid @ post \<and> sameIgnoringCase mid w \<and>
        (pre = [] \<or> \<not> isWordChar (last pre)) \<and> (post = [] \<or> \<not> isWordChar (hd post)))"

definition documentedAffirmativePhrases :: "string list" where
  "documentedAffirmativePhrases =
     [''yes'', ''yep'', ''yeah'', ''y'', ''ok'', ''okay'', ''sure'', ''go ahead'', ''confirm'',
      ''proceed'']"

definition documentedCompletionPhrases :: "string list" where
  "documentedCompletionPhrases =
     [''done'', ''completed'', ''complete'', ''finished'', ''resolved'', ''closed'']"

text \<open>The code unit before the position reached after reading \<open>xs\<close>.\<close>

fun lastSeen :: "char option \<Rightarrow> string \<Rightarrow> char option" where
  "lastSeen prev [] = prev"
| "lastSeen prev (c # cs) = lastSeen (Some c) cs"

section \<open>Sessions and task states\<close>

text \<open>
  \<open>AgentTaskState\<close> of \<open>utils/enum.ts\<close>, and \<open>ITaskState\<close> and \<open>IAgentSession\<close> of the
  session model. An optional field of the interface is an \<open>option\<close>. \<open>currentIndex\<close> is a
  JavaScript number that the code only ever sets to a list index; it is an \<open>int\<close> here, so
  that a stored negative value is possible, as the index-drift guard expects.
\<close>

datatype AgentTaskState =
  AWAITING_UPDATE | AWAITING_EDIT_DECISION | AWAITING_EDIT_INPUT | AWAITING_CONFIRM | COMPLETED

record ITaskState =
  taskId :: string
  title :: string
  status :: string
  pendingStatusDone :: "bool option"
  createdAt :: "string option"
  updatedAt :: "string option"
  draftSummary :: "string option"
  finalSummary :: "string option"
  state :: AgentTaskState

record IAgentSession =
  userId :: string
  currentIndex :: int
  tasks :: "ITaskState list"

text \<open>
  \<open>TaskStateSchema\<close> lists the paths \<open>taskId\<close>, \<open>title\<close>, \<open>status\<close>, \<open>createdAt\<close>,
  \<open>updatedAt\<close>, \<open>draftSummary\<close>, \<open>finalSummary\<close> and \<open>state\<close>. The interface field
  \<open>pendingStatusDone\<close> is not a path of the schema, and the schema is declared with the
  options \<open>{ _id: false }\<close> only, so it is strict: \<open>save\<close> writes the paths of the schema and
  nothing else. What reaches the store of a task is therefore the task without
  \<open>pendingStatusDone\<close>.
\<close>

definition persistedTask :: "ITaskState \<Rightarrow> ITaskState" where
  "persistedTask t = t\<lparr>pendingStatusDone := None\<rparr>"

definition persisted :: "IAgentSession \<Rightarrow> IAgentSession" where
  "persisted session = session\<lparr>tasks := map persistedTask (tasks session)\<rparr>"

text \<open>The collection of sessions, by session identifier.\<close>

type_synonym sessionStore = "string \<rightharpoonup> IAgentSession"

definition findById :: "sessionStore \<Rightarrow> string \<Rightarrow> IAgentSession option" where
  "findById store sessionId = store sessionId"

definition save :: "sessionStore \<Rightarrow> string \<Rightarrow> IAgentSession \<Rightarrow> sessionStore" where
  "save store sessionId session = store(sessionId \<mapsto> persisted session)"

section \<open>Thrown values and the AI engine client\<close>

text \<open>
  A rejected promise is the left injection of a sum. \<open>Error\<close> is \<open>new Error(message)\<close>,
  \<open>TypeError\<close> a property read on \<open>undefined\<close>, \<open>RequestFailed\<close> what axios rejects with.
\<close>

datatype thrown = Error string | TypeError string | RequestFailed string

datatype agentOperation = draft_summary | apply_edits | analyze_update

record AIEngineProcessRequest =
  user_input :: "string option"
  user_id :: string
  agent_operation :: agentOperation
  task_title :: "string option"
  current_summary :: "string option"

record AIEngineProcessResponse =
  success :: bool
  generated_content :: "string option"
  error :: "string option"
  error_message :: "string option"

text \<open>
  The engine is outside the program: \<open>POST /process\<close> either rejects or answers with a
  response body.
\<close>

type_synonym engine = "AIEngineProcessRequest \<Rightarrow> thrown + AIEngineProcessResponse"

text \<open>\<open>aiEngineClient.processMessage\<close>: the error is logged and thrown again.\<close>

definition processMessage :: "engine \<Rightarrow> AIEngineProcessRequest \<Rightarrow> thrown + AIEngineProcessResponse" where
  "processMessage post payload = (case post payload of Inl e \<Rightarrow> Inl e | Inr data \<Rightarrow> Inr data)"

text \<open>
  \<^verbatim>\<open>
  if (!response.success || !response.generated_content) {
    throw new Error(response.error_message || response.error || fallbackMessage)
  }
  \<close>
\<close>

definition ensureSuccess :: "AIEngineProcessResponse \<Rightarrow> string \<Rightarrow> thrown + unit" where
  "ensureSuccess response fallbackMessage =
     (if \<not> success response \<or> \<not> truthy (generated_content response)
      then Inl (Error (case orElse (error_message response) (error response) of
                         None \<Rightarrow> fallbackMessage
                       | Some m \<Rightarrow> if m = [] then fallbackMessage else m))
      else Inr ())"

text \<open>\<open>response.generated_content!.trim()\<close>\<close>

definition trimmedContent :: "AIEngineProcessResponse \<Rightarrow> thrown + string" where
  "trimmedContent response =
     (case generated_content response of
        None \<Rightarrow> Inl (TypeError ''Cannot read properties of undefined (reading trim)'')
      | Some c \<Rightarrow> Inr (trim c))"

definition generateSummary :: "engine \<Rightarrow> string \<Rightarrow> string \<Rightarrow> string \<Rightarrow> thrown + string" where
  "generateSummary post userUpdate taskTitle uid =
     (case processMessage post
             \<lparr>user_input = Some userUpdate, user_id = uid, agent_operation = draft_summary,
              task_title = Some taskTitle, current_summary = None\<rparr> of
        Inl e \<Rightarrow> Inl e
      | Inr response \<Rightarrow>
          (case ensureSuccess response ''Failed to generate task summary'' of
             Inl e \<Rightarrow> Inl e
           | Inr _ \<Rightarrow> trimmedContent response))"

definition applyEdits :: "engine \<Rightarrow> string option \<Rightarrow> string \<Rightarrow> string \<Rightarrow> thrown + string" where
  "applyEdits post summary userEdits uid =
     (case processMessage post
             \<lparr>user_input = Some userEdits, user_id = uid, agent_operation = apply_edits,
              task_title = None, current_summary = summary\<rparr> of
        Inl e \<Rightarrow> Inl e
      | Inr response \<Rightarrow>
          (case ensureSuccess response ''Failed to apply edits to summary'' of
             Inl e \<Rightarrow> Inl e
           | Inr _ \<Rightarrow> trimmedContent response))"

datatype updateType = status_only | comment_only | comment_and_status

text \<open>
  \<^verbatim>\<open>
  if (!response.success || !response.generated_content) { return 'comment_only' }
  const normalized = response.generated_content.trim().toLowerCase()
  if (normalized === 'status_only' || normalized === 'comment_only' ||
      normalized === 'comment_and_status') { return normalized }
  return 'comment_only'
  \<close>
  The call of the client is not inside a \<open>try\<close>: when the request rejects, so does
  \<open>analyzeUpdateType\<close>.
\<close>

definition classifyContent :: "string \<Rightarrow> updateType" where
  "classifyContent content =
     (let normalized = toLowerCase (trim content) in
      if normalized = ''status_only'' then status_only
      else if normalized = ''comment_only'' then comment_only
      else if normalized = ''comment_and_status'' then comment_and_status
      else comment_only)"

definition analyzeUpdateType :: "engine \<Rightarrow> string option \<Rightarrow> string \<Rightarrow> thrown + updateType" where
  "analyzeUpdateType post summary uid =
     (case processMessage post
             \<lparr>user_input = summary, user_id = uid, agent_operation = analyze_update,
              task_title = None, current_summary = None\<rparr> of
        Inl e \<Rightarrow> Inl e
      | Inr response \<Rightarrow>
          if \<not> success response \<or> \<not> truthy (generated_content response) then Inr comment_only
          else (case generated_content response of
                  None \<Rightarrow> Inr comment_only
                | Some content \<Rightarrow> Inr (classifyContent content)))"

section \<open>The Jira service\<close>

text \<open>
  Jira and the integration-token collection are outside the program. Each request of
  \<open>JiraService\<close> is a field of the record: it rejects or answers.
  \<^item> \<open>integrationToken\<close>: \<open>IntegrationToken.findOne\<close>, the \<open>accountId\<close> of the user's token;
  \<^item> \<open>accessibleResources\<close>: the pairs \<open>(id, url)\<close> of \<open>GET accessible-resources\<close>, after
    \<open>ensureValidJiraAccessToken\<close>;
  \<^item> \<open>searchJql\<close>, \<open>postComment\<close>, \<open>postTransition\<close>, \<open>putFields\<close>, \<open>getTransitions\<close>:
    the REST calls, by cloud identifier.
\<close>

record jiraIssue =
  issueKey :: string
  issueSummary :: string
  issueStatusName :: "string option"
  issueCreated :: "string option"
  issueUpdated :: "string option"

record jiraWorld =
  integrationToken :: "string \<Rightarrow> string option"
  accessibleResources :: "thrown + (string \<times> string) list"
  searchJql :: "string \<Rightarrow> string \<Rightarrow> thrown + jiraIssue list"
  postComment :: "string \<Rightarrow> string \<Rightarrow> string option \<Rightarrow> thrown + unit"
  postTransition :: "string \<Rightarrow> string \<Rightarrow> string \<Rightarrow> thrown + unit"
  putFields :: "string \<Rightarrow> string \<Rightarrow> (string \<times> string) list \<Rightarrow> thrown + unit"
  getTransitions :: "string \<Rightarrow> string \<Rightarrow> thrown + (string \<times> string) list"

text \<open>
  \<open>getCloudResource\<close>: the first resource with an \<open>id\<close> and a \<open>url\<close>, or
  \<open>No accessible Jira resource found\<close>.
\<close>

definition getCloudResource :: "jiraWorld \<Rightarrow> thrown + string" where
  "getCloudResource jira =
     (case accessibleResources jira of
        Inl e \<Rightarrow> Inl e
      | Inr resources \<Rightarrow>
          (case find (\<lambda>r. fst r \<noteq> [] \<and> snd r \<noteq> []) resources of
             None \<Rightarrow> Inl (Error ''No accessible Jira resource found'')
           | Some resource \<Rightarrow> Inr (fst resource)))"

record pendingTask =
  pendingTaskId :: string
  pendingTitle :: string
  pendingStatus :: string
  pendingCreatedAt :: "string option"
  pendingUpdatedAt :: "string option"

text \<open>
  \<^verbatim>\<open>
  const jql = `assignee = ${accountId} AND status = "In Progress" AND created >= -7d`;
  \<close>
\<close>

definition pendingJql :: "string \<Rightarrow> string" where
  "pendingJql accountId =
     ''assignee = '' @ accountId @ '' AND status = '' @ [CHR 0x22] @ ''In Progress'' @ [CHR 0x22] @
     '' AND created >= -7d''"

definition issueToPendingTask :: "jiraIssue \<Rightarrow> pendingTask" where
  "issueToPendingTask issue =
     \<lparr>pendingTaskId = issueKey issue,
      pendingTitle = issueSummary issue,
      pendingStatus = (case issueStatusName issue of None \<Rightarrow> [] | Some n \<Rightarrow> n),
      pendingCreatedAt = issueCreated issue,
      pendingUpdatedAt = issueUpdated issue\<rparr>"

definition getPendingTasks :: "jiraWorld \<Rightarrow> string \<Rightarrow> thrown + pendingTask list" where
  "getPendingTasks jira uid =
     (case integrationToken jira uid of
        None \<Rightarrow> Inl (Error ''Jira integration not found'')
      | Some accountId \<Rightarrow>
          (case getCloudResource jira of
             Inl e \<Rightarrow> Inl e
           | Inr cloudId \<Rightarrow>
               (case searchJql jira cloudId (pendingJql accountId) of
                  Inl e \<Rightarrow> Inl e
                | Inr issues \<Rightarrow> Inr (map issueToPendingTask issues))))"

datatype updateAction =
  CommentAction "string option" | StatusAction string | FieldsAction "(string \<times> string) list"

text \<open>
  \<open>updateTask\<close>: the three action types of its parameter's type are the three cases of the
  \<open>switch\<close>; a \<open>fields\<close> action loses its \<open>summary\<close> key before the request.
\<close>

definition updateTask :: "jiraWorld \<Rightarrow> string \<Rightarrow> updateAction \<Rightarrow> string \<Rightarrow> thrown + unit" where
  "updateTask jira tid action uid =
     (case integrationToken jira uid of
        None \<Rightarrow> Inl (Error ''Jira integration not found'')
      | Some _ \<Rightarrow>
          (case getCloudResource jira of
             Inl e \<Rightarrow> Inl e
           | Inr cloudId \<Rightarrow>
               (case action of
                  CommentAction text \<Rightarrow> postComment jira cloudId tid text
                | StatusAction transitionId \<Rightarrow> postTransition jira cloudId tid transitionId
                | FieldsAction fieldValues \<Rightarrow>
                    putFields jira cloudId tid
                      (if truthy (map_of fieldValues ''summary'')
                       then filter (\<lambda>kv. fst kv \<noteq> ''summary'') fieldValues else fieldValues))))"

definition addComment :: "jiraWorld \<Rightarrow> string \<Rightarrow> string option \<Rightarrow> string \<Rightarrow> thrown + unit" where
  "addComment jira tid comment uid = updateTask jira tid (CommentAction comment) uid"

text \<open>
  \<open>getTransitionId\<close>: the identifier of the first transition whose target status has the
  given name; the transitions are pairs \<open>(id, to.name)\<close>.
\<close>

definition getTransitionId :: "jiraWorld \<Rightarrow> string \<Rightarrow> string \<Rightarrow> string \<Rightarrow> thrown + string" where
  "getTransitionId jira tid statusName uid =
     (case integrationToken jira uid of
        None \<Rightarrow> Inl (Error ''Jira integration not found'')
      | Some _ \<Rightarrow>
          (case getCloudResource jira of
             Inl e \<Rightarrow> Inl e
           | Inr cloudId \<Rightarrow>
               (case getTransitions jira cloudId tid of
                  Inl e \<Rightarrow> Inl e
                | Inr transitions \<Rightarrow>
                    (case find (\<lambda>t. snd t = statusName) transitions of
                       None \<Rightarrow> Inl (Error (''Transition to status '' @ [CHR 0x22] @ statusName @
                                            [CHR 0x22] @ '' not found''))
                     | Some transition \<Rightarrow> Inr (fst transition)))))"

text \<open>
  What a turn did to the ticket API: the calls of \<open>JiraService\<close> that \<open>handleMessage\<close> made,
  in order, each with whether it completed without an error.
\<close>

datatype jiraCall =
  AddComment string "string option" | GetTransitionId string string | UpdateStatus string string

type_synonym trace = "(jiraCall \<times> bool) list"

text \<open>A mutation of the ticket: a comment or a status transition, not the lookup.\<close>

fun isMutation :: "jiraCall \<Rightarrow> bool" where
  "isMutation (AddComment _ _) = True"
| "isMutation (UpdateStatus _ _) = True"
| "isMutation (GetTransitionId _ _) = False"

definition committedMutation :: "trace \<Rightarrow> bool" where
  "committedMutation tr = list_ex (\<lambda>ev. isMutation (fst ev) \<and> snd ev) tr"

section \<open>The agent conversation service\<close>

text \<open>
  \<open>startSession\<close>: the pending tasks of the user become a new session document, every task
  in \<open>AWAITING_UPDATE\<close>. The identifier of the new document is given by the store.
\<close>

definition newTaskState :: "pendingTask \<Rightarrow> ITaskState" where
  "newTaskState t =
     \<lparr>taskId = pendingTaskId t, title = pendingTitle t, status = pendingStatus t,
      pendingStatusDone = None, createdAt = pendingCreatedAt t, updatedAt = pendingUpdatedAt t,
      draftSummary = None, finalSummary = None, state = AWAITING_UPDATE\<rparr>"

definition startSession ::
  "jiraWorld \<Rightarrow> sessionStore \<Rightarrow> string \<Rightarrow> string \<Rightarrow> (thrown + IAgentSession) \<times> sessionStore" where
  "startSession jira store newId uid =
     (case getPendingTasks jira uid of
        Inl e \<Rightarrow> (Inl e, store)
      | Inr pendingTasks \<Rightarrow>
          (let session = \<lparr>userId = uid, currentIndex = 0, tasks = map newTaskState pendingTasks\<rparr>
           in (Inr session, save store newId session)))"

text \<open>
  The replies of \<open>handleMessage\<close>, by the template they are built from:
  \<^item> \<open>NoPendingTasks\<close>: I couldn't find any pending Jira tasks for you. If that seems
    wrong, try refreshing or reconnecting Jira.
  \<^item> \<open>SummaryGenerated draft\<close>: Here's the summary I generated: "draft" / Do you want to
    update anything in it?
  \<^item> \<open>AskForChanges\<close>: Okay, please tell me what changes you'd like to make.
  \<^item> \<open>AboutToUpdate draft\<close>: I'm about to update the ticket with: "draft". Should I go
    ahead?
  \<^item> \<open>SummaryUpdated summary\<close>: Here's the updated summary: "summary" / Should I go ahead
    and update Jira?
  \<^item> \<open>WontUpdateYet\<close>: Okay, I won't update it yet. What would you like to change?
  \<^item> \<open>MovedToNextTask title\<close>: Ticket updated. Let's move to your next task: "title"
  \<^item> \<open>AllTasksDone\<close>: Ticket updated. All tasks are done. Great job!
  \<^item> \<open>AllTasksComplete\<close>: All tasks are complete.
\<close>

datatype reply =
  NoPendingTasks
| SummaryGenerated string
| AskForChanges
| AboutToUpdate "string option"
| SummaryUpdated "string option"
| WontUpdateYet
| MovedToNextTask string
| AllTasksDone
| AllTasksComplete

text \<open>
  A turn: what \<open>handleMessage\<close> returns or throws, the store after it, and its calls of the
  ticket API.
\<close>

type_synonym turn = "(thrown + reply \<times> IAgentSession) \<times> sessionStore \<times> trace"

text \<open>
  \<^verbatim>\<open>
  if (session.currentIndex < 0 || session.currentIndex >= session.tasks.length) {
    session.currentIndex = 0;
    await session.save();
  }
  \<close>
\<close>

definition indexDriftGuard ::
  "sessionStore \<Rightarrow> string \<Rightarrow> IAgentSession \<Rightarrow> IAgentSession \<times> sessionStore" where
  "indexDriftGuard store sessionId session =
     (if currentIndex session < 0 \<or> int (length (tasks session)) \<le> currentIndex session
      then (session\<lparr>currentIndex := 0\<rparr>, save store sessionId (session\<lparr>currentIndex := 0\<rparr>))
      else (session, store))"

text \<open>
  \<open>session.tasks[session.currentIndex]\<close>: an index outside the array reads \<open>undefined\<close>.
\<close>

definition currentTask :: "IAgentSession \<Rightarrow> ITaskState option" where
  "currentTask session =
     (if 0 \<le> currentIndex session \<and> currentIndex session < int (length (tasks session))
      then Some (tasks session ! nat (currentIndex session))
      else None)"

definition setCurrentTask :: "IAgentSession \<Rightarrow> ITaskState \<Rightarrow> IAgentSession" where
  "setCurrentTask session task =
     session\<lparr>tasks := (tasks session)[nat (currentIndex session) := task]\<rparr>"

text \<open>\<open>case AgentTaskState.AWAITING_UPDATE\<close>\<close>

definition onAwaitingUpdate ::
  "engine \<Rightarrow> sessionStore \<Rightarrow> string \<Rightarrow> IAgentSession \<Rightarrow> ITaskState \<Rightarrow> string \<Rightarrow> string \<Rightarrow> turn" where
  "onAwaitingUpdate post store sessionId session task userMessage uid =
     (case generateSummary post userMessage (title task) uid of
        Inl e \<Rightarrow> (Inl e, store, [])
      | Inr draftRaw \<Rightarrow>
          (let draft = (if trim draftRaw \<noteq> [] then trim draftRaw else ''Update noted.'');
               task1 = task\<lparr>draftSummary := Some draft\<rparr>;
               task2 = (if saidDone userMessage then task1\<lparr>pendingStatusDone := Some True\<rparr>
                        else task1);
               task3 = task2\<lparr>state := AWAITING_EDIT_DECISION\<rparr>;
               session1 = setCurrentTask session task3
           in (Inr (SummaryGenerated draft, session1), save store sessionId session1, [])))"

text \<open>\<open>case AgentTaskState.AWAITING_EDIT_DECISION\<close>\<close>

definition onAwaitingEditDecision ::
  "sessionStore \<Rightarrow> string \<Rightarrow> IAgentSession \<Rightarrow> ITaskState \<Rightarrow> string \<Rightarrow> turn" where
  "onAwaitingEditDecision store sessionId session task userMessage =
     (if isAffirmative userMessage
      then (let session1 = setCurrentTask session (task\<lparr>state := AWAITING_EDIT_INPUT\<rparr>)
            in (Inr (AskForChanges, session1), save store sessionId session1, []))
      else (let session1 = setCurrentTask session (task\<lparr>state := AWAITING_CONFIRM\<rparr>)
            in (Inr (AboutToUpdate (draftSummary task), session1),
                save store sessionId session1, [])))"

text \<open>
  \<open>case AgentTaskState.AWAITING_EDIT_INPUT\<close>, with
  \<open>updatedSummary = (updatedRaw || "").trim() || task.draftSummary!\<close>
\<close>

definition onAwaitingEditInput ::
  "engine \<Rightarrow> sessionStore \<Rightarrow> string \<Rightarrow> IAgentSession \<Rightarrow> ITaskState \<Rightarrow> string \<Rightarrow> string \<Rightarrow> turn" where
  "onAwaitingEditInput post store sessionId session task userMessage uid =
     (case applyEdits post (draftSummary task) userMessage uid of
        Inl e \<Rightarrow> (Inl e, store, [])
      | Inr updatedRaw \<Rightarrow>
          (let updatedSummary =
                 (if trim updatedRaw \<noteq> [] then Some (trim updatedRaw) else draftSummary task);
               task1 = task\<lparr>draftSummary := updatedSummary, state := AWAITING_CONFIRM\<rparr>;
               session1 = setCurrentTask session task1
           in (Inr (SummaryUpdated updatedSummary, session1),
               save store sessionId session1, [])))"

text \<open>
  The status part of a commit, the same statements in the \<open>status_only\<close> and the
  \<open>comment_and_status\<close> branch:
  \<^verbatim>\<open>
  if (task.status !== "Done") {
    const transitionId = await jiraService.getTransitionId(task.taskId, "Done", userData);
    await jiraService.updateTask(task.taskId, { type: "status", value: transitionId }, userData);
    task.status = "Done";
  }
  \<close>
\<close>

definition commitStatus :: "jiraWorld \<Rightarrow> ITaskState \<Rightarrow> string \<Rightarrow> (thrown + ITaskState) \<times> trace" where
  "commitStatus jira task uid =
     (if status task \<noteq> ''Done''
      then (case getTransitionId jira (taskId task) ''Done'' uid of
              Inl e \<Rightarrow> (Inl e, [(GetTransitionId (taskId task) ''Done'', False)])
            | Inr transitionId \<Rightarrow>
                (case updateTask jira (taskId task) (StatusAction transitionId) uid of
                   Inl e \<Rightarrow> (Inl e, [(GetTransitionId (taskId task) ''Done'', True),
                                    (UpdateStatus (taskId task) transitionId, False)])
                 | Inr _ \<Rightarrow> (Inr (task\<lparr>status := ''Done''\<rparr>),
                             [(GetTransitionId (taskId task) ''Done'', True),
                              (UpdateStatus (taskId task) transitionId, True)])))
      else (Inr task, []))"

definition commitUpdate ::
  "jiraWorld \<Rightarrow> ITaskState \<Rightarrow> updateType \<Rightarrow> string \<Rightarrow> (thrown + ITaskState) \<times> trace" where
  "commitUpdate jira task ut uid =
     (case ut of
        comment_only \<Rightarrow>
          (case addComment jira (taskId task) (draftSummary task) uid of
             Inl e \<Rightarrow> (Inl e, [(AddComment (taskId task) (draftSummary task), False)])
           | Inr _ \<Rightarrow> (Inr task, [(AddComment (taskId task) (draftSummary task), True)]))
      | status_only \<Rightarrow> commitStatus jira task uid
      | comment_and_status \<Rightarrow>
          (case addComment jira (taskId task) (draftSummary task) uid of
             Inl e \<Rightarrow> (Inl e, [(AddComment (taskId task) (draftSummary task), False)])
           | Inr _ \<Rightarrow>
               (case commitStatus jira task uid of
                  (r, tr) \<Rightarrow> (r, (AddComment (taskId task) (draftSummary task), True) # tr))))"

text \<open>
  \<^verbatim>\<open>
  let nextIndex = session.currentIndex + 1;
  while (nextIndex < session.tasks.length) {
    if (session.tasks[nextIndex].state !== AgentTaskState.COMPLETED) { ...; break; }
    nextIndex++;
  }
  \<close>
  The loop as a search: the index it stops at, or \<open>None\<close> when it runs off the end.
\<close>

function nextActionable :: "ITaskState list \<Rightarrow> nat \<Rightarrow> nat option" where
  "nextActionable ts nextIndex =
     (if nextIndex < length ts
      then (if state (ts ! nextIndex) \<noteq> COMPLETED then Some nextIndex
            else nextActionable ts (nextIndex + 1))
      else None)"
  by pat_completeness auto
termination
  by (relation "measure (\<lambda>(ts, nextIndex). length ts - nextIndex)") auto

text \<open>
  The end of the \<open>AWAITING_CONFIRM\<close> case: the task is finalized, the session advances to
  the next task that is not completed, and the session is saved.
\<close>

definition finalized :: "ITaskState \<Rightarrow> ITaskState" where
  "finalized task = task\<lparr>finalSummary := draftSummary task, state := COMPLETED\<rparr>"

definition finalizeAndAdvance :: "IAgentSession \<Rightarrow> ITaskState \<Rightarrow> reply \<times> IAgentSession" where
  "finalizeAndAdvance session task =
     (let session1 = setCurrentTask session (finalized task)
      in case nextActionable (tasks session1) (nat (currentIndex session1 + 1)) of
           None \<Rightarrow> (AllTasksDone, session1)
         | Some nextIndex \<Rightarrow>
             (let session2 = session1\<lparr>currentIndex := int nextIndex\<rparr>;
                  session3 = setCurrentTask session2
                               ((tasks session2 ! nextIndex)\<lparr>state := AWAITING_UPDATE\<rparr>)
              in (MovedToNextTask (title (tasks session3 ! nextIndex)), session3)))"

text \<open>
  \<open>case AgentTaskState.AWAITING_CONFIRM\<close>
  \<^verbatim>\<open>
  if (task.pendingStatusDone && updateType === "comment_only") {
    updateType = "comment_and_status";
  }
  \<close>
\<close>

definition effectiveUpdateType :: "ITaskState \<Rightarrow> updateType \<Rightarrow> updateType" where
  "effectiveUpdateType task analyzed =
     (if pendingStatusDone task = Some True \<and> analyzed = comment_only then comment_and_status
      else analyzed)"

definition onAwaitingConfirm ::
  "engine \<Rightarrow> jiraWorld \<Rightarrow> sessionStore \<Rightarrow> string \<Rightarrow> IAgentSession \<Rightarrow> ITaskState \<Rightarrow> string \<Rightarrow>
     string \<Rightarrow> turn" where
  "onAwaitingConfirm post jira store sessionId session task userMessage uid =
     (if \<not> isAffirmative userMessage then (Inr (WontUpdateYet, session), store, [])
      else (case analyzeUpdateType post (draftSummary task) uid of
              Inl e \<Rightarrow> (Inl e, store, [])
            | Inr analyzed \<Rightarrow>
                (case commitUpdate jira task (effectiveUpdateType task analyzed) uid of
                   (Inl e, tr) \<Rightarrow> (Inl e, store, tr)
                 | (Inr task1, tr) \<Rightarrow>
                     (case finalizeAndAdvance session task1 of
                        (r, session1) \<Rightarrow>
                          (Inr (r, session1), save store sessionId session1, tr)))))"

text \<open>The \<open>switch\<close> on the state of the current task.\<close>

definition dispatch ::
  "engine \<Rightarrow> jiraWorld \<Rightarrow> sessionStore \<Rightarrow> string \<Rightarrow> IAgentSession \<Rightarrow> ITaskState \<Rightarrow> string \<Rightarrow>
     string \<Rightarrow> turn" where
  "dispatch post jira store sessionId session task userMessage uid =
     (case state task of
        AWAITING_UPDATE \<Rightarrow> onAwaitingUpdate post store sessionId session task userMessage uid
      | AWAITING_EDIT_DECISION \<Rightarrow> onAwaitingEditDecision store sessionId session task userMessage
      | AWAITING_EDIT_INPUT \<Rightarrow>
          onAwaitingEditInput post store sessionId session task userMessage uid
      | AWAITING_CONFIRM \<Rightarrow>
          onAwaitingConfirm post jira store sessionId session task userMessage uid
      | COMPLETED \<Rightarrow> (Inr (AllTasksComplete, session), store, []))"

text \<open>
  \<open>handleMessage\<close>: the session is loaded, the two guards run, and the current task is
  read and dispatched on. A session that is not found throws.
\<close>

definition handleMessage ::
  "engine \<Rightarrow> jiraWorld \<Rightarrow> sessionStore \<Rightarrow> string \<Rightarrow> string \<Rightarrow> string \<Rightarrow> turn" where
  "handleMessage post jira store sessionId userMessage uid =
     (case findById store sessionId of
        None \<Rightarrow> (Inl (Error ''Session not found''), store, [])
      | Some session \<Rightarrow>
          if tasks session = [] then (Inr (NoPendingTasks, session), store, [])
          else (case indexDriftGuard store sessionId session of
                  (session1, store1) \<Rightarrow>
                    (case currentTask session1 of
                       None \<Rightarrow>
                         (Inl (TypeError ''Cannot read properties of undefined (reading state)''),
                          store1, [])
                     | Some task \<Rightarrow>
                         dispatch post jira store1 sessionId session1 task userMessage uid)))"

section \<open>The AI service and its retry loop\<close>

text \<open>
  What \<open>aiEngineClient.processMessage\<close> rejects with inside \<open>AIService\<close>: the fields of the
  error that the service reads, \<open>error.response.status\<close>, \<open>error.code\<close> and \<open>error.message\<close>.
\<close>

record requestError =
  responseStatus :: "nat option"
  errorCode :: "string option"
  errorMessage :: string

text \<open>
  \<^verbatim>\<open>
  if (!error) return false
  const status = error?.response?.status
  if (!status && error?.code === 'ECONNABORTED') { return true }
  return [408, 425, 429, 500, 502, 503, 504].includes(status)
  \<close>
  A thrown error object is truthy; \<open>!status\<close> holds for a missing status and for \<open>0\<close>.
\<close>

definition isRetryable :: "requestError \<Rightarrow> bool" where
  "isRetryable err =
     (if (responseStatus err = None \<or> responseStatus err = Some 0) \<and>
         errorCode err = Some ''ECONNABORTED''
      then True
      else (case responseStatus err of
              None \<Rightarrow> False
            | Some st \<Rightarrow> st \<in> set [408, 425, 429, 500, 502, 503, 504]))"

text \<open>\<open>String.prototype.includes\<close>\<close>

fun stringIncludes :: "string \<Rightarrow> string \<Rightarrow> bool" where
  "stringIncludes [] sub = (sub = [])"
| "stringIncludes (c # cs) sub = (take (length sub) (c # cs) = sub \<or> stringIncludes cs sub)"

definition getErrorCode :: "requestError \<Rightarrow> string" where
  "getErrorCode err =
     (if stringIncludes (errorMessage err) ''Rate limit'' then ''RATE_LIMIT_EXCEEDED''
      else if stringIncludes (errorMessage err) ''cost limit'' then ''COST_LIMIT_EXCEEDED''
      else if responseStatus err = Some 401 then ''UNAUTHORIZED''
      else if responseStatus err = Some 404 then ''NOT_FOUND''
      else ''INTERNAL_ERROR'')"

text \<open>
  \<open>AIResponse\<close>: a success carries the content (\<open>mapSuccess\<close> copies the other fields of
  the engine's response), a failure its code and message.
\<close>

datatype AIResponse = AISuccess string | AIFailure string string

definition mapSuccess :: "AIEngineProcessResponse \<Rightarrow> AIResponse" where
  "mapSuccess response =
     AISuccess (case generated_content response of None \<Rightarrow> [] | Some c \<Rightarrow> c)"

definition engineFailure :: "AIEngineProcessResponse \<Rightarrow> AIResponse" where
  "engineFailure response =
     AIFailure
       (case orElse (error response) None of None \<Rightarrow> ''ENGINE_ERROR'' | Some c \<Rightarrow> c)
       (case orElse (error_message response) None of
          None \<Rightarrow> ''AI engine returned an error'' | Some m \<Rightarrow> m)"

text \<open>
  One request is sent several times, and the engine may answer each attempt differently:
  the engine of a run maps the attempt number to what the call does. A run records the
  number of calls of the engine and the waits of \<open>setTimeout\<close>, in milliseconds and in
  order.
\<close>

type_synonym attempts = "nat \<Rightarrow> requestError + AIEngineProcessResponse"

record run =
  outcome :: "requestError + AIResponse"
  engineCalls :: nat
  waits :: "nat list"

definition retryAttempts :: nat where
  "retryAttempts = 3"

text \<open>
  \<^verbatim>\<open>
  for (let attempt = 0; attempt < this.retryAttempts; attempt++) {
    try {
      const engineResponse = await aiEngineClient.processMessage(payload)
      ...
      if (engineResponse.success) { return this.mapSuccess(engineResponse) }
      return { success: false, error: { ... } }
    } catch (error) {
      lastError = error
      if (!this.isRetryable(error)) { throw error }
      const backoff = 1000 * (attempt + 1)
      await new Promise((resolve) => setTimeout(resolve, backoff))
    }
  }
  throw lastError
  \<close>
  \<open>Inl\<close> of the outcome is what the loop throws; \<open>lastError\<close> is \<open>null\<close> only before the
  first attempt.
\<close>

definition backoff :: "nat \<Rightarrow> nat" where
  "backoff attempt = 1000 * (attempt + 1)"

function retryLoop :: "attempts \<Rightarrow> nat \<Rightarrow> nat list \<Rightarrow> requestError \<Rightarrow> run" where
  "retryLoop engineAt attempt waited lastError =
     (if attempt < retryAttempts
      then (case engineAt attempt of
              Inr engineResponse \<Rightarrow>
                \<lparr>outcome = Inr (if success engineResponse then mapSuccess engineResponse
                                 else engineFailure engineResponse),
                 engineCalls = attempt + 1, waits = waited\<rparr>
            | Inl err \<Rightarrow>
                if \<not> isRetryable err
                then \<lparr>outcome = Inl err, engineCalls = attempt + 1, waits = waited\<rparr>
                else retryLoop engineAt (attempt + 1) (waited @ [backoff attempt]) err)
      else \<lparr>outcome = Inl lastError, engineCalls = attempt, waits = waited\<rparr>)"
  by pat_completeness auto
termination
  by (relation "measure (\<lambda>(engineAt, attempt, waited, lastError). retryAttempts - attempt)") auto

text \<open>
  \<open>enforceRateLimits\<close>: with a user identifier, the counter of the user is incremented and
  a count over 100 throws. \<open>requestCount\<close> is what \<open>redis.incr\<close> returns.
\<close>

definition enforceRateLimits :: "string option \<Rightarrow> nat \<Rightarrow> requestError + unit" where
  "enforceRateLimits requestUserId requestCount =
     (if \<not> truthy requestUserId then Inr ()
      else if requestCount > 100
      then Inl \<lparr>responseStatus = None, errorCode = None, errorMessage = ''Rate limit exceeded''\<rparr>
      else Inr ())"

text \<open>
  \<open>AIService.processMessage\<close>: whatever the \<open>try\<close> block throws becomes a failure response.
\<close>

definition nullError :: requestError where
  "nullError = \<lparr>responseStatus = None, errorCode = None, errorMessage = []\<rparr>"

definition caughtFailure :: "requestError \<Rightarrow> AIResponse" where
  "caughtFailure err =
     AIFailure (getErrorCode err)
       (if errorMessage err = [] then ''Failed to process AI request'' else errorMessage err)"

definition AIService_processMessage :: "attempts \<Rightarrow> string option \<Rightarrow> nat \<Rightarrow> run" where
  "AIService_processMessage engineAt requestUserId requestCount =
     (case enforceRateLimits requestUserId requestCount of
        Inl err \<Rightarrow> \<lparr>outcome = Inr (caughtFailure err), engineCalls = 0, waits = []\<rparr>
      | Inr _ \<Rightarrow>
          (let r = retryLoop engineAt 0 [] nullError in
           case outcome r of
             Inl err \<Rightarrow> r\<lparr>outcome := Inr (caughtFailure err)\<rparr>
           | Inr response \<Rightarrow> r))"

text \<open>Errors of the classes the retry policy names, and engines built from them.\<close>

definition httpError :: "nat \<Rightarrow> requestError" where
  "httpError st = \<lparr>responseStatus = Some st, errorCode = Some ''ERR_BAD_RESPONSE'',
                   errorMessage = ''Request failed''\<rparr>"

definition timeoutError :: requestError where
  "timeoutError = \<lparr>responseStatus = None, errorCode = Some ''ECONNABORTED'',
                   errorMessage = ''timeout of 15000ms exceeded''\<rparr>"

definition alwaysUnavailable :: attempts where
  "alwaysUnavailable attempt = Inl (httpError 503)"

definition okResponse :: AIEngineProcessResponse where
  "okResponse = \<lparr>success = True, generated_content = Some ''ok'', error = None,
                  error_message = None\<rparr>"

definition recoversAtFourth :: attempts where
  "recoversAtFourth attempt = (if attempt < 3 then Inl (httpError 503) else Inr okResponse)"

definition alwaysUnauthorized :: attempts where
  "alwaysUnauthorized attempt = Inl (httpError 401)"

section \<open>A concrete engine, Jira and conversation\<close>

text \<open>
  An engine that drafts and edits with fixed texts and classifies every draft as
  \<open>comment_only\<close>, and a Jira site with one issue in progress, a transition to \<open>Done\<close>,
  and no failing request.
\<close>

definition demoEngine :: engine where
  "demoEngine request =
     Inr \<lparr>success = True,
          generated_content =
            Some (case agent_operation request of
                    draft_summary \<Rightarrow> ''Added analytics tracking.''
                  | apply_edits \<Rightarrow> ''Added analytics tracking to checkout.''
                  | analyze_update \<Rightarrow> ''comment_only''),
          error = None, error_message = None\<rparr>"

definition demoIssue :: jiraIssue where
  "demoIssue =
     \<lparr>issueKey = ''KT-1'', issueSummary = ''Add Analytics events'',
      issueStatusName = Some ''In Progress'', issueCreated = None, issueUpdated = None\<rparr>"

definition demoJira :: jiraWorld where
  "demoJira =
     \<lparr>integrationToken = (\<lambda>uid. Some ''account-1''),
      accessibleResources = Inr [(''cloud-1'', ''https://example.atlassian.net'')],
      searchJql = (\<lambda>cloudId jql. Inr [demoIssue]),
      postComment = (\<lambda>cloudId tid text. Inr ()),
      postTransition = (\<lambda>cloudId tid transitionId. Inr ()),
      putFields = (\<lambda>cloudId tid fieldValues. Inr ()),
      getTransitions = (\<lambda>cloudId tid. Inr [(''21'', ''In Review''), (''31'', ''Done'')])\<rparr>"

text \<open>The store after a turn.\<close>

definition storeAfter :: "turn \<Rightarrow> sessionStore" where
  "storeAfter t = fst (snd t)"

definition traceOf :: "turn \<Rightarrow> trace" where
  "traceOf t = snd (snd t)"

text \<open>
  The session is started, the user reports the work as completed, declines to edit the
  draft, and confirms.
\<close>

definition demoStore0 :: sessionStore where
  "demoStore0 = snd (startSession demoJira Map.empty ''s1'' ''u1'')"

definition demoTurn1 :: turn where
  "demoTurn1 = handleMessage demoEngine demoJira demoStore0 ''s1'' ''completed, added tracking'' ''u1''"

definition demoTurn2 :: turn where
  "demoTurn2 = handleMessage demoEngine demoJira (storeAfter demoTurn1) ''s1'' ''no'' ''u1''"

definition demoTurn3 :: turn where
  "demoTurn3 = handleMessage demoEngine demoJira (storeAfter demoTurn2) ''s1'' ''yes'' ''u1''"

text \<open>The task of the session as \<open>startSession\<close> creates it.\<close>

definition demoTask :: ITaskState where
  "demoTask =
     \<lparr>taskId = ''KT-1'', title = ''Add Analytics events'', status = ''In Progress'',
      pendingStatusDone = None, createdAt = None, updatedAt = None,
      draftSummary = None, finalSummary = None, state = AWAITING_UPDATE\<rparr>"

text \<open>
  Engines for the other outcomes of a call: the request is rejected; the engine answers
  \<open>success: false\<close>; it answers with an empty text; it answers with white space only.
\<close>

definition rejectingEngine :: engine where
  "rejectingEngine request = Inl (RequestFailed ''timeout of 15000ms exceeded'')"

definition failedEngine :: engine where
  "failedEngine request =
     Inr \<lparr>success = False, generated_content = None, error = Some ''LLM_ERROR'',
          error_message = Some ''model unavailable''\<rparr>"

definition emptyOutputEngine :: engine where
  "emptyOutputEngine request =
     Inr \<lparr>success = True, generated_content = Some [], error = None, error_message = None\<rparr>"

definition blankOutputEngine :: engine where
  "blankOutputEngine request =
     Inr \<lparr>success = True, generated_content = Some ''   '', error = None, error_message = None\<rparr>"

text \<open>
  A store with three more sessions: one with three tasks, the first waiting for the
  confirmation, the second completed, the third not; one without tasks; and one whose
  index has drifted out of the task list.
\<close>

definition confirmTask :: ITaskState where
  "confirmTask =
     demoTask\<lparr>draftSummary := Some ''Added analytics tracking.'', state := AWAITING_CONFIRM\<rparr>"

definition completedTask :: ITaskState where
  "completedTask =
     \<lparr>taskId = ''KT-2'', title = ''Fix login redirect'', status = ''Done'',
      pendingStatusDone = None, createdAt = None, updatedAt = None,
      draftSummary = Some ''Fixed.'', finalSummary = Some ''Fixed.'', state = COMPLETED\<rparr>"

definition editingTask :: ITaskState where
  "editingTask =
     \<lparr>taskId = ''KT-3'', title = ''Write release notes'', status = ''In Progress'',
      pendingStatusDone = None, createdAt = None, updatedAt = None,
      draftSummary = Some ''Drafted the notes.'', finalSummary = None,
      state = AWAITING_EDIT_INPUT\<rparr>"

definition threeTaskSession :: IAgentSession where
  "threeTaskSession =
     \<lparr>userId = ''u1'', currentIndex = 0, tasks = [confirmTask, completedTask, editingTask]\<rparr>"

definition emptySession :: IAgentSession where
  "emptySession = \<lparr>userId = ''u2'', currentIndex = 0, tasks = []\<rparr>"

definition driftedSession :: IAgentSession where
  "driftedSession = \<lparr>userId = ''u3'', currentIndex = 7, tasks = [confirmTask]\<rparr>"

definition editSession :: IAgentSession where
  "editSession = \<lparr>userId = ''u4'', currentIndex = 0, tasks = [editingTask]\<rparr>"

definition demoStore :: sessionStore where
  "demoStore =
     [''s3'' \<mapsto> threeTaskSession, ''s4'' \<mapsto> emptySession, ''s5'' \<mapsto> driftedSession,
      ''s6'' \<mapsto> editSession]"

text \<open>The session that a turn returns, when it returns.\<close>

definition sessionOf :: "turn \<Rightarrow> IAgentSession option" where
  "sessionOf t = (case fst t of Inl e \<Rightarrow> None | Inr (r, session) \<Rightarrow> Some session)"

text \<open>The three-task session after its first task is confirmed.\<close>

definition advancedSession :: IAgentSession where
  "advancedSession =
     \<lparr>userId = ''u1'', currentIndex = 2,
      tasks = [finalized confirmTask, completedTask, editingTask\<lparr>state := AWAITING_UPDATE\<rparr>]\<rparr>"

text \<open>
  A Jira that answers the query for the pending issues with an issue whose status is
  \<open>Done\<close>, an engine that classifies every draft as \<open>status_only\<close>, and the conversation of
  before with them.
\<close>

definition doneIssue :: jiraIssue where
  "doneIssue = demoIssue\<lparr>issueStatusName := Some ''Done''\<rparr>"

definition laxJira :: jiraWorld where
  "laxJira = demoJira\<lparr>searchJql := (\<lambda>cloudId jql. Inr [doneIssue])\<rparr>"

definition statusEngine :: engine where
  "statusEngine request =
     Inr \<lparr>success = True,
          generated_content =
            Some (case agent_operation request of
                    draft_summary \<Rightarrow> ''Added analytics tracking.''
                  | apply_edits \<Rightarrow> ''Added analytics tracking to checkout.''
                  | analyze_update \<Rightarrow> ''status_only''),
          error = None, error_message = None\<rparr>"

definition laxStore0 :: sessionStore where
  "laxStore0 = snd (startSession laxJira Map.empty ''s1'' ''u1'')"

definition laxTurn1 :: turn where
  "laxTurn1 = handleMessage statusEngine laxJira laxStore0 ''s1'' ''added tracking'' ''u1''"

definition laxTurn2 :: turn where
  "laxTurn2 = handleMessage statusEngine laxJira (storeAfter laxTurn1) ''s1'' ''no'' ''u1''"

definition laxTurn3 :: turn where
  "laxTurn3 = handleMessage statusEngine laxJira (storeAfter laxTurn2) ''s1'' ''yes'' ''u1''"

text \<open>
  The started demo session after a turn whose draft came back blank, and the one-task
  session in \<open>AWAITING_EDIT_INPUT\<close> after such a turn.
\<close>

definition notedSession :: IAgentSession where
  "notedSession =
     \<lparr>userId = ''u1'', currentIndex = 0,
      tasks = [demoTask\<lparr>draftSummary := Some ''Update noted.'',
                        state := AWAITING_EDIT_DECISION\<rparr>]\<rparr>"

definition keptSession :: IAgentSession where
  "keptSession =
     \<lparr>userId = ''u4'', currentIndex = 0, tasks = [editingTask\<lparr>state := AWAITING_CONFIRM\<rparr>]\<rparr>"

section \<open>Properties of sessions\<close>

text \<open>The invariant of the data model: \<open>0 <= currentIndex < len(tasks)\<close>.\<close>

definition inRange :: "IAgentSession \<Rightarrow> bool" where
  "inRange session =
     (0 \<le> currentIndex session \<and> currentIndex session < int (length (tasks session)))"

text \<open>
  The next task that is not completed, seen from index \<open>i\<close>: the first index after \<open>i\<close>
  whose task is not \<open>COMPLETED\<close>; and the case that there is none.
\<close>

definition isNextPending :: "ITaskState list \<Rightarrow> nat \<Rightarrow> nat \<Rightarrow> bool" where
  "isNextPending ts i j =
     (i < j \<and> j < length ts \<and> state (ts ! j) \<noteq> COMPLETED \<and>
      (\<forall>k. i < k \<and> k < j \<longrightarrow> state (ts ! k) = COMPLETED))"

definition noPendingAfter :: "ITaskState list \<Rightarrow> nat \<Rightarrow> bool" where
  "noPendingAfter ts i = (\<forall>k. i < k \<and> k < length ts \<longrightarrow> state (ts ! k) = COMPLETED)"

text \<open>
  The stores that the program itself produces: a store is reachable when it comes from the
  empty store by \<open>startSession\<close> and by turns of \<open>handleMessage\<close>, with any engine and any
  Jira.
\<close>

inductive reachable :: "sessionStore \<Rightarrow> bool" where
  emptyStore: "reachable Map.empty"
| started: "reachable store \<Longrightarrow> startSession jira store newId uid = (r, store') \<Longrightarrow>
            reachable store'"
| handled: "reachable store \<Longrightarrow>
            handleMessage post jira store sessionId userMessage uid = (r, store', tr) \<Longrightarrow>
            reachable store'"

text \<open>
  A task that waits for the decision to edit, or for the edit text, has a draft summary
  that is not empty: the draft is written by the turn that leaves \<open>AWAITING_UPDATE\<close>.
\<close>

definition drafted :: "IAgentSession \<Rightarrow> bool" where
  "drafted session =
     (\<forall>t \<in> set (tasks session).
        state t = AWAITING_EDIT_DECISION \<or> state t = AWAITING_EDIT_INPUT \<longrightarrow>
        truthy (draftSummary t))"

text \<open>
  The tasks other than the current one after a commit: as many, each completed exactly when
  it was, and with the status it had.
\<close>

definition sameOrPending :: "IAgentSession \<Rightarrow> IAgentSession \<Rightarrow> bool" where
  "sameOrPending s s' =
     (length (tasks s') = length (tasks s) \<and>
      (\<forall>k < length (tasks s). k \<noteq> nat (currentIndex s) \<longrightarrow>
         (state (tasks s' ! k) = COMPLETED) = (state (tasks s ! k) = COMPLETED) \<and>
         status (tasks s' ! k) = status (tasks s ! k)))"

text \<open>
  An attempt of a run fails in a retryable way; and the request of \<open>analyzeUpdateType\<close>.
\<close>

definition retryableFailure :: "attempts \<Rightarrow> nat \<Rightarrow> bool" where
  "retryableFailure engineAt attempt =
     (case engineAt attempt of Inl err \<Rightarrow> isRetryable err | Inr response \<Rightarrow> False)"

definition analyzeRequest :: "string option \<Rightarrow> string \<Rightarrow> AIEngineProcessRequest" where
  "analyzeRequest summary uid =
     \<lparr>user_input = summary, user_id = uid, agent_operation = analyze_update,
      task_title = None, current_summary = None\<rparr>"

definition updateTypeNames :: "string set" where
  "updateTypeNames = {''status_only'', ''comment_only'', ''comment_and_status''}"

text \<open>The error of an attempt that failed.\<close>

definition errorAt :: "attempts \<Rightarrow> nat \<Rightarrow> requestError" where
  "errorAt engineAt attempt = (case engineAt attempt of Inl err \<Rightarrow> err | Inr response \<Rightarrow> nullError)"

text \<open>The requests of \<open>generateSummary\<close> and \<open>applyEdits\<close>.\<close>

definition summaryRequest :: "string \<Rightarrow> string \<Rightarrow> string \<Rightarrow> AIEngineProcessRequest" where
  "summaryRequest userUpdate taskTitle uid =
     \<lparr>user_input = Some userUpdate, user_id = uid, agent_operation = draft_summary,
      task_title = Some taskTitle, current_summary = None\<rparr>"

definition editsRequest :: "string option \<Rightarrow> string \<Rightarrow> string \<Rightarrow> AIEngineProcessRequest" where
  "editsRequest summary userEdits uid =
     \<lparr>user_input = Some userEdits, user_id = uid, agent_operation = apply_edits,
      task_title = None, current_summary = summary\<rparr>"

text \<open>
  The engine answered the request with a text that \<open>ensureSuccess\<close> lets through: success,
  and a content that is not empty.
\<close>

definition answeredWith :: "engine \<Rightarrow> AIEngineProcessRequest \<Rightarrow> string \<Rightarrow> bool" where
  "answeredWith post request content =
     (case post request of
        Inl e \<Rightarrow> False
      | Inr response \<Rightarrow>
          success response \<and> generated_content response = Some content \<and> content \<noteq> [])"

section \<open>The pattern tests accept the documented phrases\<close>

lemma lastSeen_snoc: "lastSeen prev (xs @ [x]) = Some x"
  by (induction xs arbitrary: prev) simp_all

lemma lastSeen_last: "xs \<noteq> [] \<Longrightarrow> lastSeen prev xs = Some (last xs)"
  by (induction xs arbitrary: prev) auto

lemma canonicalize_word:
  "canonicalize c = canonicalize p \<Longrightarrow> isWordChar p \<Longrightarrow> isWordChar c"
  by (auto simp: canonicalize_def isWordChar_def split: if_splits)

lemma matchLiteral_same:
  "map canonicalize mid = map canonicalize w \<Longrightarrow>
     matchLiteral w (prev, mid @ post) = Some (lastSeen prev mid, post)"
proof (induction w arbitrary: mid prev)
  case Nil
  then show ?case by simp
next
  case (Cons p ps)
  then obtain c cs where mid: "mid = c # cs" by (cases mid) auto
  with Cons.prems have "canonicalize c = canonicalize p" "map canonicalize cs = map canonicalize ps"
    by simp_all
  with Cons.IH [of cs "Some c"] mid show ?case by simp
qed

lemma searchFrom_skip:
  "matchHere alts (lastSeen prev pre, rest) \<Longrightarrow> searchFrom alts (prev, pre @ rest)"
proof (induction pre arbitrary: prev)
  case Nil
  then show ?case by (cases rest) simp_all
next
  case (Cons c cs)
  then show ?case by simp
qed

lemma whole_word_found:
  assumes w: "w \<in> set alts" and ne: "w \<noteq> []"
    and first: "isWordChar (hd w)" and lst: "isWordChar (last w)"
    and cw: "containsWholeWord w s"
  shows "regexTest alts s"
proof -
  from cw obtain pre mid post where s: "s = pre @ mid @ post"
    and same: "map canonicalize mid = map canonicalize w"
    and left: "pre = [] \<or> \<not> isWordChar (last pre)"
    and right: "post = [] \<or> \<not> isWordChar (hd post)"
    by (auto simp: containsWholeWord_def sameIgnoringCase_def)
  from same ne have mne: "mid \<noteq> []" by auto
  from same have len: "length mid = length w" by (rule map_eq_imp_length_eq)
  from same mne ne have "canonicalize (hd mid) = canonicalize (hd w)"
    by (cases mid; cases w) simp_all
  then have hdw: "isWordChar (hd mid)" using first by (rule canonicalize_word)
  from same mne ne have "canonicalize (last mid) = canonicalize (last w)"
    by (metis last_map)
  then have lastw: "isWordChar (last mid)" using lst by (rule canonicalize_word)
  have before: "\<not> isWordAt (lastSeen None pre)"
    using left by (cases "pre = []") (simp_all add: lastSeen_last)
  have b1: "atBoundary (lastSeen None pre, mid @ post)"
    using before hdw mne by (cases mid) simp_all
  have b2: "atBoundary (lastSeen (lastSeen None pre) mid, post)"
    using lastw mne right by (cases post) (simp_all add: lastSeen_last)
  have "matchLiteral w (lastSeen None pre, mid @ post) = Some (lastSeen (lastSeen None pre) mid, post)"
    using same by (rule matchLiteral_same)
  with b2 have "case matchLiteral w (lastSeen None pre, mid @ post) of
      None \<Rightarrow> False | Some pos' \<Rightarrow> atBoundary pos'"
    by (simp del: atBoundary.simps)
  with w have "list_ex (\<lambda>w. case matchLiteral w (lastSeen None pre, mid @ post) of
      None \<Rightarrow> False | Some pos' \<Rightarrow> atBoundary pos') alts"
    unfolding list_ex_iff by blast
  with b1 have "matchHere alts (lastSeen None pre, mid @ post)"
    unfolding matchHere_def by blast
  then show ?thesis unfolding regexTest_def s by (rule searchFrom_skip)
qed

text \<open>
  Claim C9. The affirmative-phrase detector accepts every input that contains one of
  yes, yep, yeah, y, ok, okay, sure, go ahead, confirm, proceed as a whole word, in any
  letter case, and the implies-completion detector accepts every input that contains one
  of done, completed, complete, finished, resolved, closed as a whole word: no documented
  phrase is rejected.
\<close>

theorem C9_documented_phrases_accepted:
  "(w \<in> set documentedAffirmativePhrases \<and> containsWholeWord w s \<longrightarrow> isAffirmative s) \<and>
   (w \<in> set documentedCompletionPhrases \<and> containsWholeWord w s \<longrightarrow> saidDone s)"
proof (intro conjI impI)
  assume a: "w \<in> set documentedAffirmativePhrases \<and> containsWholeWord w s"
  then have "w \<in> set affirmativeAlternatives"
    by (simp add: documentedAffirmativePhrases_def affirmativeAlternatives_def)
  moreover from a have "w \<noteq> [] \<and> isWordChar (hd w) \<and> isWordChar (last w)"
    by (auto simp: documentedAffirmativePhrases_def isWordChar_def codeUnit_def)
  ultimately show "isAffirmative s"
    unfolding isAffirmative_def using a by (blast intro: whole_word_found)
next
  assume a: "w \<in> set documentedCompletionPhrases \<and> containsWholeWord w s"
  then have "w \<in> set doneAlternatives"
    by (simp add: documentedCompletionPhrases_def doneAlternatives_def)
  moreover from a have "w \<noteq> [] \<and> isWordChar (hd w) \<and> isWordChar (last w)"
    by (auto simp: documentedCompletionPhrases_def isWordChar_def codeUnit_def)
  ultimately show "saidDone s"
    unfolding saidDone_def using a by (blast intro: whole_word_found)
qed

theorem C9_documented_phrases_accepted_witness:
  "isAffirmative ''Please GO Ahead now'' \<and> saidDone ''all Done.''"
proof -
  have "containsWholeWord ''go ahead'' (''Please '' @ ''GO Ahead'' @ '' now'')"
    unfolding containsWholeWord_def
    by (intro exI [of _ "''Please ''"] exI [of _ "''GO Ahead''"] exI [of _ "'' now''"])
       (simp add: sameIgnoringCase_def canonicalize_def isWordChar_def codeUnit_def)
  then have 1: "''go ahead'' \<in> set documentedAffirmativePhrases \<and>
      containsWholeWord ''go ahead'' ''Please GO Ahead now''"
    by (simp add: documentedAffirmativePhrases_def)
  have "containsWholeWord ''done'' (''all '' @ ''Done'' @ ''.'')"
    unfolding containsWholeWord_def
    by (intro exI [of _ "''all ''"] exI [of _ "''Done''"] exI [of _ "''.''"])
       (simp add: sameIgnoringCase_def canonicalize_def isWordChar_def codeUnit_def)
  then have 2: "''done'' \<in> set documentedCompletionPhrases \<and>
      containsWholeWord ''done'' ''all Done.''"
    by (simp add: documentedCompletionPhrases_def)
  from 1 2 C9_documented_phrases_accepted [of "''go ahead''" "''Please GO Ahead now''"]
    C9_documented_phrases_accepted [of "''done''" "''all Done.''"]
  show ?thesis by blast
qed

section \<open>Guards, the advance loop and the index invariant\<close>

lemma currentTask_Some:
  "currentTask s = Some task \<longleftrightarrow>
     (0 \<le> currentIndex s \<and> currentIndex s < int (length (tasks s)) \<and>
      task = tasks s ! nat (currentIndex s))"
  by (auto simp: currentTask_def)

lemma indexDriftGuard_in_range:
  "currentTask s = Some task \<Longrightarrow> indexDriftGuard store sid s = (s, store)"
  by (auto simp: currentTask_def indexDriftGuard_def split: if_splits)

lemma handleMessage_in_range:
  assumes "findById store sid = Some s" and "currentTask s = Some task"
  shows "handleMessage post jira store sid msg uid = dispatch post jira store sid s task msg uid"
proof -
  from assms(2) have "tasks s \<noteq> []" by (auto simp: currentTask_def split: if_splits)
  with assms show ?thesis
    by (simp add: handleMessage_def indexDriftGuard_in_range)
qed

text \<open>
  Claim C4. For a session whose current task is in \<open>AWAITING_CONFIRM\<close>, a message that is
  not an affirmative phrase leaves everything as it was: the turn returns the loaded session
  unchanged with the reply that asks what to change, the store after the turn is the store
  before it, and the turn makes no call of the ticket API (no \<open>addComment\<close>, no
  \<open>updateTask\<close>, no \<open>getTransitionId\<close>).
\<close>

theorem C4_non_affirmative_keeps_confirm:
  assumes "findById store sid = Some s" and "currentTask s = Some task"
    and "state task = AWAITING_CONFIRM" and "\<not> isAffirmative msg"
  shows "handleMessage post jira store sid msg uid = (Inr (WontUpdateYet, s), store, [])"
  using assms by (simp add: handleMessage_in_range dispatch_def onAwaitingConfirm_def)

lemma indexDriftGuard_out_of_range:
  assumes "tasks s \<noteq> []" and "currentIndex s < 0 \<or> int (length (tasks s)) \<le> currentIndex s"
  shows "indexDriftGuard store sid s = (s\<lparr>currentIndex := 0\<rparr>, save store sid (s\<lparr>currentIndex := 0\<rparr>))"
    and "currentTask (s\<lparr>currentIndex := 0\<rparr>) = Some (hd (tasks s))"
  using assms by (auto simp: indexDriftGuard_def currentTask_def hd_conv_nth)

text \<open>
  Claim C8. For a session with an empty task list \<open>handleMessage\<close> returns the explanatory
  reply and changes nothing. For a session with tasks whose \<open>currentIndex\<close> is negative or
  not below the number of tasks, it saves the session with \<open>currentIndex\<close> 0 and then
  processes the first task; and after the guard the read of the current task is always
  inside the task list.
\<close>

theorem C8_guards:
  "(findById store sid = Some s \<and> tasks s = [] \<longrightarrow>
      handleMessage post jira store sid msg uid = (Inr (NoPendingTasks, s), store, [])) \<and>
   (findById store sid = Some s \<and> tasks s \<noteq> [] \<and>
      (currentIndex s < 0 \<or> int (length (tasks s)) \<le> currentIndex s) \<longrightarrow>
      handleMessage post jira store sid msg uid =
        dispatch post jira (save store sid (s\<lparr>currentIndex := 0\<rparr>)) sid (s\<lparr>currentIndex := 0\<rparr>)
          (hd (tasks s)) msg uid) \<and>
   (findById store sid = Some s \<and> tasks s \<noteq> [] \<longrightarrow>
      currentTask (fst (indexDriftGuard store sid s)) \<noteq> None)"
proof (intro conjI impI)
  assume "findById store sid = Some s \<and> tasks s = []"
  then show "handleMessage post jira store sid msg uid = (Inr (NoPendingTasks, s), store, [])"
    by (simp add: handleMessage_def)
next
  assume a: "findById store sid = Some s \<and> tasks s \<noteq> [] \<and>
      (currentIndex s < 0 \<or> int (length (tasks s)) \<le> currentIndex s)"
  then show "handleMessage post jira store sid msg uid =
        dispatch post jira (save store sid (s\<lparr>currentIndex := 0\<rparr>)) sid (s\<lparr>currentIndex := 0\<rparr>)
          (hd (tasks s)) msg uid"
    by (simp add: handleMessage_def indexDriftGuard_out_of_range)
next
  assume "findById store sid = Some s \<and> tasks s \<noteq> []"
  then show "currentTask (fst (indexDriftGuard store sid s)) \<noteq> None"
    by (auto simp: indexDriftGuard_def currentTask_def)
qed



declare nextActionable.simps [simp del]

lemma nextActionable_Some:
  "nextActionable ts n = Some j \<Longrightarrow>
     n \<le> j \<and> j < length ts \<and> state (ts ! j) \<noteq> COMPLETED \<and>
     (\<forall>k. n \<le> k \<and> k < j \<longrightarrow> state (ts ! k) = COMPLETED)"
proof (induction ts n rule: nextActionable.induct)
  case (1 ts n)
  show ?case
  proof (cases "n < length ts \<and> state (ts ! n) = COMPLETED")
    case True
    with "1.prems" have rec: "nextActionable ts (n + 1) = Some j"
      by (simp add: nextActionable.simps [of ts n])
    with "1.IH" True have ih: "n + 1 \<le> j \<and> j < length ts \<and> state (ts ! j) \<noteq> COMPLETED \<and>
        (\<forall>k. n + 1 \<le> k \<and> k < j \<longrightarrow> state (ts ! k) = COMPLETED)"
      by simp
    have "\<forall>k. n \<le> k \<and> k < j \<longrightarrow> state (ts ! k) = COMPLETED"
    proof (intro allI impI)
      fix k assume k: "n \<le> k \<and> k < j"
      show "state (ts ! k) = COMPLETED"
      proof (cases "k = n")
        case True then show ?thesis using \<open>n < length ts \<and> state (ts ! n) = COMPLETED\<close> by simp
      next
        case False with k ih show ?thesis by simp
      qed
    qed
    with ih show ?thesis by simp
  next
    case False
    with "1.prems" show ?thesis
      by (auto simp: nextActionable.simps [of ts n] split: if_splits)
  qed
qed

lemma nextActionable_None:
  "nextActionable ts n = None \<Longrightarrow> n \<le> k \<Longrightarrow> k < length ts \<Longrightarrow> state (ts ! k) = COMPLETED"
proof (induction ts n rule: nextActionable.induct)
  case (1 ts n)
  from "1.prems" have n: "n < length ts" by simp
  from "1.prems"(1) n have c: "state (ts ! n) = COMPLETED"
    by (auto simp: nextActionable.simps [of ts n] split: if_splits)
  show ?case
  proof (cases "k = n")
    case True with c show ?thesis by simp
  next
    case False
    from "1.prems"(1) n c have "nextActionable ts (n + 1) = None"
      by (simp add: nextActionable.simps [of ts n])
    with "1.IH" n c False "1.prems" show ?thesis by simp
  qed
qed

lemma inRange_persisted [simp]: "inRange (persisted s) = inRange s"
  by (simp add: inRange_def persisted_def)

lemma inRange_setCurrentTask [simp]: "inRange (setCurrentTask s t) = inRange s"
  by (simp add: inRange_def setCurrentTask_def)

lemma currentTask_inRange: "currentTask s = Some task \<Longrightarrow> inRange s"
  by (simp add: currentTask_Some inRange_def)

lemma isNextPending_unique:
  "isNextPending ts i j \<Longrightarrow> isNextPending ts i j' \<Longrightarrow> j = j'"
  unfolding isNextPending_def by (metis linorder_neqE_nat)

lemma isNextPending_not_none:
  "isNextPending ts i j \<Longrightarrow> \<not> noPendingAfter ts i"
  unfolding isNextPending_def noPendingAfter_def by blast

lemma nextActionable_update_Some:
  assumes "nextActionable (ts[i := t]) (Suc i) = Some j"
  shows "isNextPending ts i j"
proof -
  from nextActionable_Some [OF assms]
  have a1: "Suc i \<le> j" and a2: "j < length (ts[i := t])"
    and a3: "state (ts[i := t] ! j) \<noteq> COMPLETED"
    and b: "\<forall>k. Suc i \<le> k \<and> k < j \<longrightarrow> state (ts[i := t] ! k) = COMPLETED"
    by blast+
  from a1 have "i \<noteq> j" by simp
  with a3 have c: "state (ts ! j) \<noteq> COMPLETED" by simp
  have "\<forall>k. i < k \<and> k < j \<longrightarrow> state (ts ! k) = COMPLETED"
  proof (intro allI impI)
    fix k assume k: "i < k \<and> k < j"
    with b have "state (ts[i := t] ! k) = COMPLETED" by simp
    moreover from k have "i \<noteq> k" by simp
    ultimately show "state (ts ! k) = COMPLETED" by simp
  qed
  with a1 a2 c show ?thesis by (simp add: isNextPending_def)
qed

lemma nextActionable_update_None:
  assumes "nextActionable (ts[i := t]) (Suc i) = None"
  shows "noPendingAfter ts i"
  unfolding noPendingAfter_def
proof (intro allI impI)
  fix k assume k: "i < k \<and> k < length ts"
  with nextActionable_None [OF assms, of k] have "state (ts[i := t] ! k) = COMPLETED" by simp
  moreover from k have "i \<noteq> k" by simp
  ultimately show "state (ts ! k) = COMPLETED" by simp
qed

lemma finalizeAndAdvance_result:
  assumes "inRange s" and "finalizeAndAdvance s task = (r, s')"
  shows "(\<exists>j. isNextPending (tasks s) (nat (currentIndex s)) j \<and>
            s' = s\<lparr>currentIndex := int j,
                   tasks := (tasks s)[nat (currentIndex s) := finalized task,
                                      j := (tasks s ! j)\<lparr>state := AWAITING_UPDATE\<rparr>]\<rparr> \<and>
            r = MovedToNextTask (title (tasks s ! j))) \<or>
         (noPendingAfter (tasks s) (nat (currentIndex s)) \<and>
            s' = s\<lparr>tasks := (tasks s)[nat (currentIndex s) := finalized task]\<rparr> \<and>
            r = AllTasksDone)"
proof -
  let ?i = "nat (currentIndex s)"
  let ?ts = "(tasks s)[?i := finalized task]"
  from assms(1) have suc: "nat (currentIndex s + 1) = Suc ?i"
    by (simp add: inRange_def nat_add_distrib)
  show ?thesis
  proof (cases "nextActionable ?ts (Suc ?i)")
    case None
    then have "noPendingAfter (tasks s) ?i" by (rule nextActionable_update_None)
    with None assms(2) suc show ?thesis
      by (simp add: finalizeAndAdvance_def Let_def setCurrentTask_def)
  next
    case (Some j)
    then have np: "isNextPending (tasks s) ?i j" by (rule nextActionable_update_Some)
    then have "?i < j" "j < length (tasks s)" by (simp_all add: isNextPending_def)
    with Some assms(2) suc np show ?thesis
      by (auto simp: finalizeAndAdvance_def Let_def setCurrentTask_def)
  qed
qed


lemma finalizeAndAdvance_inRange:
  assumes "inRange s" and "finalizeAndAdvance s task = (r, s')"
  shows "inRange s'"
  using finalizeAndAdvance_result [OF assms] assms(1)
  by (auto simp: inRange_def isNextPending_def)

lemma dispatch_store:
  assumes "inRange s" and "dispatch post jira store sid s task msg uid = (r, store', tr)"
  shows "store' = store \<or> (\<exists>s'. store' = save store sid s' \<and> inRange s')"
proof (cases "state task")
  case AWAITING_UPDATE
  with assms show ?thesis
    by (auto simp: dispatch_def onAwaitingUpdate_def Let_def split: sum.splits)
next
  case AWAITING_EDIT_DECISION
  with assms show ?thesis
    by (auto simp: dispatch_def onAwaitingEditDecision_def Let_def split: if_splits)
next
  case AWAITING_EDIT_INPUT
  with assms show ?thesis
    by (auto simp: dispatch_def onAwaitingEditInput_def Let_def split: sum.splits)
next
  case AWAITING_CONFIRM
  with assms show ?thesis
    by (auto simp: dispatch_def onAwaitingConfirm_def Let_def finalizeAndAdvance_inRange
             split: sum.splits if_splits prod.splits)
next
  case COMPLETED
  with assms show ?thesis by (auto simp: dispatch_def)
qed

section \<open>Commits, the invariant of the index, and the advance on completion\<close>

lemma commitStatus_ok:
  assumes "commitStatus jira task uid = (Inr task1, tr)"
  shows "(status task = ''Done'' \<and> task1 = task \<and> tr = []) \<or>
         (status task \<noteq> ''Done'' \<and> task1 = task\<lparr>status := ''Done''\<rparr> \<and>
          (\<exists>transitionId. getTransitionId jira (taskId task) ''Done'' uid = Inr transitionId \<and>
             tr = [(GetTransitionId (taskId task) ''Done'', True),
                   (UpdateStatus (taskId task) transitionId, True)]))"
  using assms by (auto simp: commitStatus_def split: if_splits sum.splits)

lemma commitUpdate_ok:
  assumes "commitUpdate jira task ut uid = (Inr task1, tr)"
  shows "(ut = comment_only \<and> task1 = task \<and>
            tr = [(AddComment (taskId task) (draftSummary task), True)]) \<or>
         (ut = status_only \<and> commitStatus jira task uid = (Inr task1, tr)) \<or>
         (ut = comment_and_status \<and>
            (\<exists>tr'. commitStatus jira task uid = (Inr task1, tr') \<and>
               tr = (AddComment (taskId task) (draftSummary task), True) # tr'))"
  using assms by (cases ut) (auto simp: commitUpdate_def split: sum.splits prod.splits)

lemma commitUpdate_task:
  assumes "commitUpdate jira task ut uid = (Inr task1, tr)"
  shows "task1 = task \<or> task1 = task\<lparr>status := ''Done''\<rparr>"
  using commitUpdate_ok [OF assms] by (auto dest: commitStatus_ok)

lemma commitUpdate_mutation:
  assumes "commitUpdate jira task ut uid = (Inr task1, tr)"
  shows "committedMutation tr \<or> (ut = status_only \<and> status task = ''Done'' \<and> tr = [])"
  using commitUpdate_ok [OF assms] by (auto simp: committedMutation_def dest: commitStatus_ok)

lemma onAwaitingConfirm_committed:
  assumes "onAwaitingConfirm post jira store sid s task msg uid = (Inr (r, s'), store', tr)"
    and "isAffirmative msg"
  shows "\<exists>analyzed task1.
           analyzeUpdateType post (draftSummary task) uid = Inr analyzed \<and>
           commitUpdate jira task (effectiveUpdateType task analyzed) uid = (Inr task1, tr) \<and>
           finalizeAndAdvance s task1 = (r, s') \<and> store' = save store sid s'"
  using assms
  by (auto simp: onAwaitingConfirm_def split: sum.splits prod.splits)

lemma onAwaitingConfirm_store:
  assumes "onAwaitingConfirm post jira store sid s task msg uid = (r, store', tr)"
  shows "(store' = store) \<or>
         (\<exists>analyzed task1 rp s'.
            isAffirmative msg \<and>
            analyzeUpdateType post (draftSummary task) uid = Inr analyzed \<and>
            commitUpdate jira task (effectiveUpdateType task analyzed) uid = (Inr task1, tr) \<and>
            finalizeAndAdvance s task1 = (rp, s') \<and> r = Inr (rp, s') \<and> store' = save store sid s')"
  using assms
  by (auto simp: onAwaitingConfirm_def split: sum.splits prod.splits if_splits)


lemma startSession_result:
  assumes "startSession jira store newId uid = (Inr s0, store0)"
  shows "\<exists>pending. getPendingTasks jira uid = Inr pending \<and>
           s0 = \<lparr>userId = uid, currentIndex = 0, tasks = map newTaskState pending\<rparr> \<and>
           store0 = save store newId s0"
  using assms by (auto simp: startSession_def Let_def split: sum.splits)

lemma save_same [simp]: "save store sid s sid = Some (persisted s)"
  by (simp add: save_def)

lemma save_other [simp]: "x \<noteq> sid \<Longrightarrow> save store sid s x = store x"
  by (simp add: save_def)

lemma handleMessage_out_of_range:
  assumes "findById store sid = Some s" and "tasks s \<noteq> []"
    and "currentIndex s < 0 \<or> int (length (tasks s)) \<le> currentIndex s"
  shows "handleMessage post jira store sid msg uid =
           dispatch post jira (save store sid (s\<lparr>currentIndex := 0\<rparr>)) sid (s\<lparr>currentIndex := 0\<rparr>)
             (hd (tasks s)) msg uid"
  using assms by (simp add: handleMessage_def indexDriftGuard_out_of_range)

lemma handleMessage_keeps_range:
  assumes f: "findById store sid = Some s" and ne: "tasks s \<noteq> []"
  shows "\<exists>s'. storeAfter (handleMessage post jira store sid msg uid) sid = Some s' \<and> inRange s'"
proof (cases "currentIndex s < 0 \<or> int (length (tasks s)) \<le> currentIndex s")
  case True
  let ?s0 = "s\<lparr>currentIndex := 0\<rparr>"
  let ?st0 = "save store sid ?s0"
  obtain r store' tr where d: "dispatch post jira ?st0 sid ?s0 (hd (tasks s)) msg uid = (r, store', tr)"
    by (cases "dispatch post jira ?st0 sid ?s0 (hd (tasks s)) msg uid") auto
  from ne have r0: "inRange ?s0" by (simp add: inRange_def)
  from dispatch_store [OF r0 d] r0 have "\<exists>s'. store' sid = Some s' \<and> inRange s'" by auto
  with d handleMessage_out_of_range [OF f ne True] show ?thesis by (simp add: storeAfter_def)
next
  case False
  then have ct: "currentTask s = Some (tasks s ! nat (currentIndex s))"
    by (simp add: currentTask_def)
  then have r0: "inRange s" by (rule currentTask_inRange)
  obtain r store' tr where d: "dispatch post jira store sid s (tasks s ! nat (currentIndex s)) msg uid = (r, store', tr)"
    by (cases "dispatch post jira store sid s (tasks s ! nat (currentIndex s)) msg uid") auto
  from dispatch_store [OF r0 d] r0 f have "\<exists>s'. store' sid = Some s' \<and> inRange s'"
    by (auto simp: findById_def)
  with d handleMessage_in_range [OF f ct] show ?thesis by (simp add: storeAfter_def)
qed

lemma startSession_establishes:
  assumes "startSession jira store newId uid = (Inr s0, store0)"
  shows "currentIndex s0 = 0 \<and> store0 newId = Some (persisted s0) \<and>
      (tasks s0 \<noteq> [] \<longrightarrow> inRange (persisted s0))"
  using startSession_result [OF assms] by (auto simp: inRange_def persisted_def)

lemma indexDriftGuard_restores:
  assumes "tasks s \<noteq> []"
  shows "inRange (fst (indexDriftGuard store sid s)) \<and>
      (snd (indexDriftGuard store sid s) = store \<or>
       snd (indexDriftGuard store sid s) sid = Some (persisted (fst (indexDriftGuard store sid s))))"
  using assms by (auto simp: indexDriftGuard_def inRange_def)

text \<open>
  Claim C5. \<open>0 <= currentIndex < len(tasks)\<close> holds for every session with a non-empty task
  list after every operation that persists it: \<open>startSession\<close> stores the session with
  index 0; the index-drift guard yields a session in range, and what it saves is that
  session; and after every turn of \<open>handleMessage\<close>, whatever it returns or throws, the
  stored session is in range.
\<close>

theorem C5_current_index_in_range:
  "(startSession jira store newId uid = (Inr s0, store0) \<longrightarrow>
      currentIndex s0 = 0 \<and> store0 newId = Some (persisted s0) \<and>
      (tasks s0 \<noteq> [] \<longrightarrow> inRange (persisted s0))) \<and>
   (tasks s \<noteq> [] \<longrightarrow>
      inRange (fst (indexDriftGuard store sid s)) \<and>
      (snd (indexDriftGuard store sid s) = store \<or>
       snd (indexDriftGuard store sid s) sid = Some (persisted (fst (indexDriftGuard store sid s))))) \<and>
   (findById store sid = Some s \<and> tasks s \<noteq> [] \<longrightarrow>
      (\<exists>s'. storeAfter (handleMessage post jira store sid msg uid) sid = Some s' \<and> inRange s'))"
proof -
  have a: "startSession jira store newId uid = (Inr s0, store0) \<longrightarrow>
      currentIndex s0 = 0 \<and> store0 newId = Some (persisted s0) \<and>
      (tasks s0 \<noteq> [] \<longrightarrow> inRange (persisted s0))"
    by (rule impI) (rule startSession_establishes)
  have b: "tasks s \<noteq> [] \<longrightarrow>
      inRange (fst (indexDriftGuard store sid s)) \<and>
      (snd (indexDriftGuard store sid s) = store \<or>
       snd (indexDriftGuard store sid s) sid = Some (persisted (fst (indexDriftGuard store sid s))))"
    by (rule impI) (rule indexDriftGuard_restores)
  have c: "findById store sid = Some s \<and> tasks s \<noteq> [] \<longrightarrow>
      (\<exists>s'. storeAfter (handleMessage post jira store sid msg uid) sid = Some s' \<and> inRange s')"
    by (blast intro: handleMessage_keeps_range)
  from a b c show ?thesis by (intro conjI)
qed


text \<open>
  Claim C6. After a confirmed commit at \<open>AWAITING_CONFIRM\<close> the current task is
  \<open>COMPLETED\<close> and the session is saved. When a later task is not completed,
  \<open>currentIndex\<close> becomes the index of the first such task, that task is reset to
  \<open>AWAITING_UPDATE\<close> and the reply names it; when there is none, \<open>currentIndex\<close> is
  unchanged and the reply says that all tasks are done.
\<close>

theorem C6_advance_to_next_pending:
  assumes "findById store sid = Some s" and "currentTask s = Some task"
    and "state task = AWAITING_CONFIRM" and "isAffirmative msg"
    and "handleMessage post jira store sid msg uid = (Inr (r, s'), store', tr)"
  shows "store' sid = Some (persisted s') \<and>
         state (tasks s' ! nat (currentIndex s)) = COMPLETED \<and>
         (\<forall>j. isNextPending (tasks s) (nat (currentIndex s)) j \<longrightarrow>
            currentIndex s' = int j \<and> state (tasks s' ! j) = AWAITING_UPDATE \<and>
            r = MovedToNextTask (title (tasks s ! j))) \<and>
         (noPendingAfter (tasks s) (nat (currentIndex s)) \<longrightarrow>
            currentIndex s' = currentIndex s \<and> r = AllTasksDone)"
proof -
  let ?i = "nat (currentIndex s)"
  from assms(2) have rng: "inRange s" by (rule currentTask_inRange)
  then have i: "?i < length (tasks s)" by (simp add: inRange_def nat_less_iff)
  from assms have "onAwaitingConfirm post jira store sid s task msg uid = (Inr (r, s'), store', tr)"
    by (simp add: handleMessage_in_range dispatch_def)
  from onAwaitingConfirm_committed [OF this assms(4)]
  obtain task1 where fin: "finalizeAndAdvance s task1 = (r, s')" and st: "store' = save store sid s'"
    by blast
  from finalizeAndAdvance_result [OF rng fin]
  consider (moved) j where "isNextPending (tasks s) ?i j"
      "s' = s\<lparr>currentIndex := int j,
              tasks := (tasks s)[?i := finalized task1, j := (tasks s ! j)\<lparr>state := AWAITING_UPDATE\<rparr>]\<rparr>"
      "r = MovedToNextTask (title (tasks s ! j))"
    | (last) "noPendingAfter (tasks s) ?i"
      "s' = s\<lparr>tasks := (tasks s)[?i := finalized task1]\<rparr>" "r = AllTasksDone"
    by blast
  then show ?thesis
  proof cases
    case moved
    from moved(1) have ij: "?i < j" "j < length (tasks s)" by (simp_all add: isNextPending_def)
    have uniq: "\<And>j'. isNextPending (tasks s) ?i j' \<Longrightarrow> j' = j"
      using moved(1) by (blast intro: isNextPending_unique)
    have notlast: "\<not> noPendingAfter (tasks s) ?i"
      using moved(1) by (rule isNextPending_not_none)
    have p1: "store' sid = Some (persisted s')" using st by simp
    have p2: "state (tasks s' ! ?i) = COMPLETED"
      using ij i by (simp add: moved(2) finalized_def)
    have p3a: "currentIndex s' = int j" by (simp add: moved(2))
    have p3b: "state (tasks s' ! j) = AWAITING_UPDATE"
      using ij by (simp add: moved(2))
    have p3: "\<forall>j'. isNextPending (tasks s) ?i j' \<longrightarrow>
        currentIndex s' = int j' \<and> state (tasks s' ! j') = AWAITING_UPDATE \<and>
        r = MovedToNextTask (title (tasks s ! j'))"
    proof (intro allI impI)
      fix j' assume "isNextPending (tasks s) ?i j'"
      then have "j' = j" by (rule uniq)
      with p3a p3b moved(3) show "currentIndex s' = int j' \<and>
        state (tasks s' ! j') = AWAITING_UPDATE \<and> r = MovedToNextTask (title (tasks s ! j'))"
        by simp
    qed
    from p1 p2 p3 notlast show ?thesis by blast
  next
    case last
    have none: "\<And>j. \<not> isNextPending (tasks s) ?i j"
      using last(1) isNextPending_not_none by blast
    have p1: "store' sid = Some (persisted s')" using st by simp
    have p2: "state (tasks s' ! ?i) = COMPLETED"
      using i by (simp add: last(2) finalized_def)
    have p4: "currentIndex s' = currentIndex s \<and> r = AllTasksDone"
      by (simp add: last(2) last(3))
    from p1 p2 p4 none show ?thesis by blast
  qed
qed

section \<open>The states of the tasks across a turn\<close>

lemma persisted_length [simp]: "length (tasks (persisted s)) = length (tasks s)"
  by (simp add: persisted_def)

lemma persisted_state [simp]:
  "k < length (tasks s) \<Longrightarrow> state (tasks (persisted s) ! k) = state (tasks s ! k)"
  by (simp add: persisted_def persistedTask_def)

lemma persisted_status [simp]:
  "k < length (tasks s) \<Longrightarrow> status (tasks (persisted s) ! k) = status (tasks s ! k)"
  by (simp add: persisted_def persistedTask_def)

lemma persisted_currentIndex [simp]: "currentIndex (persisted s) = currentIndex s"
  by (simp add: persisted_def)

text \<open>What a turn of one state does to the states of the tasks.\<close>

lemma onAwaitingUpdate_states:
  assumes "onAwaitingUpdate post store sid s task msg uid = (r, store', tr)"
  shows "tr = [] \<and> (store' = store \<or>
          (\<exists>t. store' = save store sid (setCurrentTask s t) \<and> state t = AWAITING_EDIT_DECISION \<and>
               status t = status task))"
  using assms by (auto simp: onAwaitingUpdate_def Let_def split: sum.splits)

lemma onAwaitingEditDecision_states:
  assumes "onAwaitingEditDecision store sid s task msg = (r, store', tr)"
  shows "tr = [] \<and>
          (\<exists>t. store' = save store sid (setCurrentTask s t) \<and> state t \<noteq> COMPLETED \<and>
               status t = status task)"
  using assms by (auto simp: onAwaitingEditDecision_def Let_def split: if_splits)

lemma onAwaitingEditInput_states:
  assumes "onAwaitingEditInput post store sid s task msg uid = (r, store', tr)"
  shows "tr = [] \<and> (store' = store \<or>
          (\<exists>t. store' = save store sid (setCurrentTask s t) \<and> state t = AWAITING_CONFIRM \<and>
               status t = status task))"
  using assms by (auto simp: onAwaitingEditInput_def Let_def split: sum.splits)

lemma sameOrPending_setCurrentTask: "sameOrPending s (setCurrentTask s t)"
  by (simp add: sameOrPending_def setCurrentTask_def)

lemma finalizeAndAdvance_others:
  assumes "inRange s" and "finalizeAndAdvance s task1 = (r, s')"
  shows "sameOrPending s s' \<and> tasks s' ! nat (currentIndex s) = finalized task1"
proof -
  let ?i = "nat (currentIndex s)"
  from assms(1) have i: "?i < length (tasks s)" by (simp add: inRange_def nat_less_iff)
  from finalizeAndAdvance_result [OF assms]
  show ?thesis
  proof (elim disjE exE conjE)
    fix j
    assume np: "isNextPending (tasks s) ?i j"
      and s': "s' = s\<lparr>currentIndex := int j,
                  tasks := (tasks s)[?i := finalized task1,
                                     j := (tasks s ! j)\<lparr>state := AWAITING_UPDATE\<rparr>]\<rparr>"
    from np have ij: "?i < j" "j < length (tasks s)" by (simp_all add: isNextPending_def)
    from np have nc: "state (tasks s ! j) \<noteq> COMPLETED" by (simp add: isNextPending_def)
    have "sameOrPending s s'"
      unfolding sameOrPending_def
    proof (intro conjI allI impI)
      show "length (tasks s') = length (tasks s)" by (simp add: s')
    next
      fix k assume "k < length (tasks s)" "k \<noteq> ?i"
      then show "(state (tasks s' ! k) = COMPLETED) = (state (tasks s ! k) = COMPLETED)"
        using ij nc by (cases "k = j") (simp_all add: s')
    next
      fix k assume "k < length (tasks s)" "k \<noteq> ?i"
      then show "status (tasks s' ! k) = status (tasks s ! k)"
        using ij by (cases "k = j") (simp_all add: s')
    qed
    moreover have "tasks s' ! ?i = finalized task1" using ij i by (simp add: s')
    ultimately show ?thesis by simp
  next
    assume s': "s' = s\<lparr>tasks := (tasks s)[?i := finalized task1]\<rparr>"
    then have "sameOrPending s s'" by (simp add: sameOrPending_def)
    moreover have "tasks s' ! ?i = finalized task1" using i by (simp add: s')
    ultimately show ?thesis by simp
  qed
qed

lemma effectiveUpdateType_status_only:
  "effectiveUpdateType task analyzed = status_only \<Longrightarrow> analyzed = status_only"
  by (auto simp: effectiveUpdateType_def split: if_splits)

lemma confirm_effect:
  assumes rng: "inRange s"
    and c: "onAwaitingConfirm post jira store sid s task msg uid = (r, store', tr)"
  shows "store' = store \<or>
         (\<exists>s' task1. store' = save store sid s' \<and> sameOrPending s s' \<and>
            tasks s' ! nat (currentIndex s) = finalized task1 \<and>
            (task1 = task \<or> task1 = task\<lparr>status := ''Done''\<rparr>) \<and>
            (committedMutation tr \<or>
             (status task = ''Done'' \<and> tr = [] \<and>
              analyzeUpdateType post (draftSummary task) uid = Inr status_only)))"
proof -
  from onAwaitingConfirm_store [OF c]
  consider "store' = store"
    | analyzed task1 rp s' where
        "analyzeUpdateType post (draftSummary task) uid = Inr analyzed"
        "commitUpdate jira task (effectiveUpdateType task analyzed) uid = (Inr task1, tr)"
        "finalizeAndAdvance s task1 = (rp, s')" "store' = save store sid s'"
    by blast
  then show ?thesis
  proof cases
    case 1
    then show ?thesis by simp
  next
    case (2 analyzed task1 rp s')
    from commitUpdate_mutation [OF 2(2)] 2(1)
    have m: "committedMutation tr \<or>
             (status task = ''Done'' \<and> tr = [] \<and>
              analyzeUpdateType post (draftSummary task) uid = Inr status_only)"
      by (auto dest: effectiveUpdateType_status_only)
    from finalizeAndAdvance_others [OF rng 2(3)] commitUpdate_task [OF 2(2)] m 2(4)
    show ?thesis by blast
  qed
qed

section \<open>The effect of a turn on the store\<close>

text \<open>
  A task is newly completed by a turn only at the current index, and then a mutation was
  committed, or the cached status was already \<open>Done\<close>, the update type \<open>status_only\<close> and no
  call was made.
\<close>

lemma dispatch_completion:
  assumes rng: "inRange s" and task: "task = tasks s ! nat (currentIndex s)"
    and d: "dispatch post jira store sid s task msg uid = (r, store', tr)"
  shows "store' = store \<or>
         (\<exists>s'. store' = save store sid s' \<and> length (tasks s') = length (tasks s) \<and>
            (\<forall>k < length (tasks s). state (tasks s' ! k) = COMPLETED \<longrightarrow>
               state (tasks s ! k) = COMPLETED \<or> committedMutation tr \<or>
               (state (tasks s ! k) = AWAITING_CONFIRM \<and> status (tasks s ! k) = ''Done'' \<and>
                tr = [] \<and>
                analyzeUpdateType post (draftSummary (tasks s ! k)) uid = Inr status_only)))"
proof -
  let ?i = "nat (currentIndex s)"
  let ?P = "\<lambda>s' k. state (tasks s ! k) = COMPLETED \<or> committedMutation tr \<or>
               (state (tasks s ! k) = AWAITING_CONFIRM \<and> status (tasks s ! k) = ''Done'' \<and>
                tr = [] \<and>
                analyzeUpdateType post (draftSummary (tasks s ! k)) uid = Inr status_only)"
  from rng have i: "?i < length (tasks s)" by (simp add: inRange_def nat_less_iff)
  have step: "store' = store \<or>
         (\<exists>s'. store' = save store sid s' \<and> length (tasks s') = length (tasks s) \<and>
            (\<forall>k < length (tasks s). state (tasks s' ! k) = COMPLETED \<longrightarrow> ?P s' k))"
    if res: "store' = store \<or> (\<exists>t. store' = save store sid (setCurrentTask s t) \<and>
                  state t \<noteq> COMPLETED \<and> status t = status task)"
  proof -
    from res consider "store' = store"
      | t where "store' = save store sid (setCurrentTask s t)" "state t \<noteq> COMPLETED"
      by blast
    then show ?thesis
    proof cases
      case 1
      then show ?thesis by simp
    next
      case (2 t)
      have b: "\<forall>k < length (tasks s). state (tasks (setCurrentTask s t) ! k) = COMPLETED \<longrightarrow>
               ?P (setCurrentTask s t) k"
      proof (intro allI impI)
        fix k assume "k < length (tasks s)" "state (tasks (setCurrentTask s t) ! k) = COMPLETED"
        with 2(2) have "state (tasks s ! k) = COMPLETED"
          by (cases "k = ?i") (simp_all add: setCurrentTask_def)
        then show "?P (setCurrentTask s t) k" by simp
      qed
      have c: "length (tasks (setCurrentTask s t)) = length (tasks s)"
        by (simp add: setCurrentTask_def)
      from 2(1) b c show ?thesis by blast
    qed
  qed
  show ?thesis
  proof (cases "state task")
    case AWAITING_UPDATE
    with d have "onAwaitingUpdate post store sid s task msg uid = (r, store', tr)"
      by (simp add: dispatch_def)
    from onAwaitingUpdate_states [OF this] show ?thesis
      by (intro step) auto
  next
    case AWAITING_EDIT_DECISION
    with d have "onAwaitingEditDecision store sid s task msg = (r, store', tr)"
      by (simp add: dispatch_def)
    from onAwaitingEditDecision_states [OF this] show ?thesis
      by (intro step) auto
  next
    case AWAITING_EDIT_INPUT
    with d have "onAwaitingEditInput post store sid s task msg uid = (r, store', tr)"
      by (simp add: dispatch_def)
    from onAwaitingEditInput_states [OF this] show ?thesis
      by (intro step) auto
  next
    case COMPLETED
    with d show ?thesis by (simp add: dispatch_def)
  next
    case AWAITING_CONFIRM
    with d have c: "onAwaitingConfirm post jira store sid s task msg uid = (r, store', tr)"
      by (simp add: dispatch_def)
    from confirm_effect [OF rng c]
    consider "store' = store"
      | s' task1 where "store' = save store sid s'" "sameOrPending s s'"
          "tasks s' ! ?i = finalized task1"
          "committedMutation tr \<or>
             (status task = ''Done'' \<and> tr = [] \<and>
              analyzeUpdateType post (draftSummary task) uid = Inr status_only)"
      by blast
    then show ?thesis
    proof cases
      case 1
      then show ?thesis by simp
    next
      case (2 s' task1)
      from 2(2) have len: "length (tasks s') = length (tasks s)" by (simp add: sameOrPending_def)
      have b: "\<forall>k < length (tasks s). state (tasks s' ! k) = COMPLETED \<longrightarrow> ?P s' k"
      proof (intro allI impI)
        fix k assume k: "k < length (tasks s)" and c: "state (tasks s' ! k) = COMPLETED"
        show "?P s' k"
        proof (cases "k = ?i")
          case True
          with 2(4) AWAITING_CONFIRM task show ?thesis by auto
        next
          case False
          with k c 2(2) have "state (tasks s ! k) = COMPLETED" by (simp add: sameOrPending_def)
          then show ?thesis by simp
        qed
      qed
      from 2(1) len b show ?thesis by blast
    qed
  qed
qed

lemma indexDriftGuard_cases:
  assumes "tasks s \<noteq> []" and "indexDriftGuard store sid s = (s1, store1)"
  shows "inRange s1 \<and> tasks s1 = tasks s \<and> (store1 = store \<or> store1 = save store sid s1)"
  using assms by (auto simp: indexDriftGuard_def inRange_def split: if_splits)

lemma handleMessage_cases:
  assumes "handleMessage post jira store sid msg uid = (r, store', tr)"
  shows "(store' = store \<and> tr = []) \<or>
         (\<exists>s s1 store1. store sid = Some s \<and> tasks s \<noteq> [] \<and>
            indexDriftGuard store sid s = (s1, store1) \<and>
            dispatch post jira store1 sid s1 (tasks s1 ! nat (currentIndex s1)) msg uid =
              (r, store', tr))"
proof (cases "store sid")
  case None
  with assms show ?thesis by (auto simp: handleMessage_def findById_def)
next
  case (Some s)
  show ?thesis
  proof (cases "tasks s = []")
    case True
    with Some assms show ?thesis by (auto simp: handleMessage_def findById_def)
  next
    case False
    obtain s1 store1 where g: "indexDriftGuard store sid s = (s1, store1)"
      by (cases "indexDriftGuard store sid s") auto
    from indexDriftGuard_cases [OF False g] have "inRange s1" by simp
    then have "currentTask s1 = Some (tasks s1 ! nat (currentIndex s1))"
      by (simp add: currentTask_def inRange_def)
    with Some False g assms show ?thesis
      by (auto simp: handleMessage_def findById_def)
  qed
qed

lemma handleMessage_completion:
  assumes h: "handleMessage post jira store sid msg uid = (r, store', tr)"
    and x: "store' x = Some s'" and k: "k < length (tasks s')"
    and c: "state (tasks s' ! k) = COMPLETED"
  shows "(\<exists>s. store x = Some s \<and> k < length (tasks s) \<and> state (tasks s ! k) = COMPLETED) \<or>
         committedMutation tr \<or>
         (\<exists>s. store x = Some s \<and> k < length (tasks s) \<and>
              state (tasks s ! k) = AWAITING_CONFIRM \<and> status (tasks s ! k) = ''Done'' \<and>
              tr = [] \<and>
              analyzeUpdateType post (draftSummary (tasks s ! k)) uid = Inr status_only)"
proof -
  from handleMessage_cases [OF h]
  consider "store' = store"
    | s s1 store1 where "store sid = Some s" "tasks s \<noteq> []"
        "indexDriftGuard store sid s = (s1, store1)"
        "dispatch post jira store1 sid s1 (tasks s1 ! nat (currentIndex s1)) msg uid =
           (r, store', tr)"
    by blast
  then show ?thesis
  proof cases
    case 1
    with x k c show ?thesis by auto
  next
    case (2 s s1 store1)
    from indexDriftGuard_cases [OF 2(2) 2(3)] have rng: "inRange s1" and ts: "tasks s1 = tasks s"
      and st1: "store1 = store \<or> store1 = save store sid s1" by simp_all
    have other: "store1 y = store y" if "y \<noteq> sid" for y using st1 that by auto
    have same: "\<exists>s2. store1 sid = Some s2 \<and> length (tasks s2) = length (tasks s) \<and>
        (\<forall>j < length (tasks s). state (tasks s2 ! j) = state (tasks s ! j))"
      using st1 2(1) ts by (auto simp: ts [symmetric])
    from dispatch_completion [OF rng refl 2(4)]
    consider "store' = store1"
      | s2 where "store' = save store1 sid s2" "length (tasks s2) = length (tasks s1)"
          "\<forall>j < length (tasks s1). state (tasks s2 ! j) = COMPLETED \<longrightarrow>
             state (tasks s1 ! j) = COMPLETED \<or> committedMutation tr \<or>
             (state (tasks s1 ! j) = AWAITING_CONFIRM \<and> status (tasks s1 ! j) = ''Done'' \<and>
              tr = [] \<and>
              analyzeUpdateType post (draftSummary (tasks s1 ! j)) uid = Inr status_only)"
      by blast
    then show ?thesis
    proof cases
      case 1
      show ?thesis
      proof (cases "x = sid")
        case True
        with 1 x k c same 2(1) show ?thesis by auto
      next
        case False
        with 1 x k c other show ?thesis by auto
      qed
    next
      case (2 s2)
      show ?thesis
      proof (cases "x = sid")
        case True
        with 2(1) x have s': "s' = persisted s2" by simp
        from k s' 2(2) ts have k1: "k < length (tasks s1)" "k < length (tasks s2)"
          "k < length (tasks s)" by simp_all
        with c s' have "state (tasks s2 ! k) = COMPLETED" by simp
        with 2(3) k1 have "state (tasks s1 ! k) = COMPLETED \<or> committedMutation tr \<or>
             (state (tasks s1 ! k) = AWAITING_CONFIRM \<and> status (tasks s1 ! k) = ''Done'' \<and>
              tr = [] \<and>
              analyzeUpdateType post (draftSummary (tasks s1 ! k)) uid = Inr status_only)"
          by blast
        with ts \<open>store sid = Some s\<close> True k1 show ?thesis by auto
      next
        case False
        with 2(1) x k c other show ?thesis by auto
      qed
    qed
  qed
qed

section \<open>The completion of a task\<close>

text \<open>
  Claim C2, as the code has it. In every store, a turn of \<open>handleMessage\<close> persists the
  state \<open>COMPLETED\<close> for a task only if a mutation of the ticket (\<open>addComment\<close>, or a status
  transition through \<open>updateTask\<close>) completed without error in that turn, or the task was
  already \<open>COMPLETED\<close> before the turn, or the task waited for the confirmation with the
  cached status \<open>Done\<close>, the engine classified the draft as \<open>status_only\<close>, and the turn
  made no call of the ticket API: the guard \<open>task.status !== "Done"\<close> skips the transition.
\<close>

theorem C2_completed_after_commit_or_done:
  assumes "handleMessage post jira store sid msg uid = (r, store', tr)"
    and "store' x = Some s'" and "k < length (tasks s')"
    and "state (tasks s' ! k) = COMPLETED"
  shows "committedMutation tr \<or>
         (\<exists>s. store x = Some s \<and> k < length (tasks s) \<and> state (tasks s ! k) = COMPLETED) \<or>
         (\<exists>s. store x = Some s \<and> k < length (tasks s) \<and>
              state (tasks s ! k) = AWAITING_CONFIRM \<and> status (tasks s ! k) = ''Done'' \<and>
              analyzeUpdateType post (draftSummary (tasks s ! k)) uid = Inr status_only \<and>
              tr = [])"
proof -
  from assms have
    "(\<exists>s. store x = Some s \<and> k < length (tasks s) \<and> state (tasks s ! k) = COMPLETED) \<or>
     committedMutation tr \<or>
     (\<exists>s. store x = Some s \<and> k < length (tasks s) \<and>
          state (tasks s ! k) = AWAITING_CONFIRM \<and> status (tasks s ! k) = ''Done'' \<and>
          tr = [] \<and>
          analyzeUpdateType post (draftSummary (tasks s ! k)) uid = Inr status_only)"
    by (rule handleMessage_completion)
  then show ?thesis by blast
qed

lemmas regex_ev = isAffirmative_def saidDone_def regexTest_def affirmativeAlternatives_def
  doneAlternatives_def matchHere_def canonicalize_def isWordChar_def codeUnit_def

lemmas str_ev = trim_def isWhiteSpace_def toLowerCase_def toLowerChar_def orElse_def

lemmas jira_ev = getCloudResource_def getPendingTasks_def updateTask_def addComment_def
  getTransitionId_def issueToPendingTask_def

lemmas llm_ev = processMessage_def ensureSuccess_def trimmedContent_def generateSummary_def
  applyEdits_def analyzeUpdateType_def classifyContent_def

lemmas conv_ev = startSession_def newTaskState_def indexDriftGuard_def currentTask_def
  setCurrentTask_def onAwaitingUpdate_def onAwaitingEditDecision_def onAwaitingEditInput_def
  commitStatus_def commitUpdate_def finalizeAndAdvance_def finalized_def effectiveUpdateType_def
  onAwaitingConfirm_def dispatch_def handleMessage_def findById_def save_def persisted_def
  persistedTask_def Let_def

lemmas demo_ev = demoEngine_def demoIssue_def demoJira_def storeAfter_def traceOf_def

lemmas lax_ev = statusEngine_def doneIssue_def laxJira_def

lemma demoStore0_eval:
  "demoStore0 = [''s1'' \<mapsto> \<lparr>userId = ''u1'', currentIndex = 0, tasks = [demoTask]\<rparr>]"
  by (simp add: demoStore0_def conv_ev jira_ev demo_ev demoTask_def)

lemma demoTurn1_eval:
  "demoTurn1 =
     (Inr (SummaryGenerated ''Added analytics tracking.'',
           \<lparr>userId = ''u1'', currentIndex = 0,
            tasks = [demoTask\<lparr>draftSummary := Some ''Added analytics tracking.'',
                           pendingStatusDone := Some True, state := AWAITING_EDIT_DECISION\<rparr>]\<rparr>),
      [''s1'' \<mapsto> \<lparr>userId = ''u1'', currentIndex = 0,
                 tasks = [demoTask\<lparr>draftSummary := Some ''Added analytics tracking.'',
                                state := AWAITING_EDIT_DECISION\<rparr>]\<rparr>],
      [])"
  unfolding demoTurn1_def demoStore0_eval
  by (simp add: conv_ev llm_ev str_ev demo_ev regex_ev demoTask_def)

lemma demoTurn2_eval:
  "demoTurn2 =
     (Inr (AboutToUpdate (Some ''Added analytics tracking.''),
           \<lparr>userId = ''u1'', currentIndex = 0,
            tasks = [demoTask\<lparr>draftSummary := Some ''Added analytics tracking.'',
                           state := AWAITING_CONFIRM\<rparr>]\<rparr>),
      [''s1'' \<mapsto> \<lparr>userId = ''u1'', currentIndex = 0,
                 tasks = [demoTask\<lparr>draftSummary := Some ''Added analytics tracking.'',
                                state := AWAITING_CONFIRM\<rparr>]\<rparr>],
      [])"
  unfolding demoTurn2_def demoTurn1_eval
  by (simp add: conv_ev demo_ev regex_ev demoTask_def)

declare nextActionable.simps [simp]

lemma demoTurn3_eval:
  "demoTurn3 =
     (Inr (AllTasksDone,
           \<lparr>userId = ''u1'', currentIndex = 0,
            tasks = [demoTask\<lparr>draftSummary := Some ''Added analytics tracking.'',
                           finalSummary := Some ''Added analytics tracking.'',
                           state := COMPLETED\<rparr>]\<rparr>),
      [''s1'' \<mapsto> \<lparr>userId = ''u1'', currentIndex = 0,
                 tasks = [demoTask\<lparr>draftSummary := Some ''Added analytics tracking.'',
                                finalSummary := Some ''Added analytics tracking.'',
                                state := COMPLETED\<rparr>]\<rparr>],
      [(AddComment ''KT-1'' (Some ''Added analytics tracking.''), True)])"
  unfolding demoTurn3_def demoTurn2_eval
  by (simp add: conv_ev llm_ev str_ev jira_ev demo_ev regex_ev demoTask_def)

text \<open>The conversation with the Jira whose issue is already \<open>Done\<close>.\<close>

lemma laxStore0_eval:
  "laxStore0 =
     [''s1'' \<mapsto> \<lparr>userId = ''u1'', currentIndex = 0, tasks = [demoTask\<lparr>status := ''Done''\<rparr>]\<rparr>]"
  by (simp add: laxStore0_def conv_ev jira_ev demo_ev lax_ev demoTask_def)

lemma laxTurn1_eval:
  "laxTurn1 =
     (Inr (SummaryGenerated ''Added analytics tracking.'',
           \<lparr>userId = ''u1'', currentIndex = 0,
            tasks = [demoTask\<lparr>status := ''Done'',
                           draftSummary := Some ''Added analytics tracking.'',
                           state := AWAITING_EDIT_DECISION\<rparr>]\<rparr>),
      [''s1'' \<mapsto> \<lparr>userId = ''u1'', currentIndex = 0,
                 tasks = [demoTask\<lparr>status := ''Done'',
                                draftSummary := Some ''Added analytics tracking.'',
                                state := AWAITING_EDIT_DECISION\<rparr>]\<rparr>],
      [])"
  unfolding laxTurn1_def laxStore0_eval
  by (simp add: conv_ev llm_ev str_ev demo_ev lax_ev regex_ev demoTask_def)

lemma laxTurn2_eval:
  "laxTurn2 =
     (Inr (AboutToUpdate (Some ''Added analytics tracking.''),
           \<lparr>userId = ''u1'', currentIndex = 0,
            tasks = [demoTask\<lparr>status := ''Done'',
                           draftSummary := Some ''Added analytics tracking.'',
                           state := AWAITING_CONFIRM\<rparr>]\<rparr>),
      [''s1'' \<mapsto> \<lparr>userId = ''u1'', currentIndex = 0,
                 tasks = [demoTask\<lparr>status := ''Done'',
                                draftSummary := Some ''Added analytics tracking.'',
                                state := AWAITING_CONFIRM\<rparr>]\<rparr>],
      [])"
  unfolding laxTurn2_def laxTurn1_eval
  by (simp add: conv_ev demo_ev lax_ev regex_ev demoTask_def)

lemma laxTurn3_eval:
  "laxTurn3 =
     (Inr (AllTasksDone,
           \<lparr>userId = ''u1'', currentIndex = 0,
            tasks = [demoTask\<lparr>status := ''Done'',
                           draftSummary := Some ''Added analytics tracking.'',
                           finalSummary := Some ''Added analytics tracking.'',
                           state := COMPLETED\<rparr>]\<rparr>),
      [''s1'' \<mapsto> \<lparr>userId = ''u1'', currentIndex = 0,
                 tasks = [demoTask\<lparr>status := ''Done'',
                                draftSummary := Some ''Added analytics tracking.'',
                                finalSummary := Some ''Added analytics tracking.'',
                                state := COMPLETED\<rparr>]\<rparr>],
      [])"
  unfolding laxTurn3_def laxTurn2_eval
  by (simp add: conv_ev llm_ev str_ev jira_ev demo_ev lax_ev regex_ev demoTask_def)

section \<open>The update type\<close>


lemma classifyContent_outside:
  "toLowerCase (trim c) \<notin> updateTypeNames \<Longrightarrow> classifyContent c = comment_only"
  by (simp add: classifyContent_def updateTypeNames_def Let_def)

lemma analyzeUpdateType_response:
  assumes "post (analyzeRequest summary uid) = Inr response"
  shows "analyzeUpdateType post summary uid =
           Inr (if success response \<and> truthy (generated_content response)
                then (case generated_content response of
                        None \<Rightarrow> comment_only | Some c \<Rightarrow> classifyContent c)
                else comment_only)"
  using assms
  by (auto simp: analyzeUpdateType_def analyzeRequest_def processMessage_def split: option.splits)

lemma analyzeUpdateType_rejected:
  assumes "post (analyzeRequest summary uid) = Inl e"
  shows "analyzeUpdateType post summary uid = Inl e"
  using assms by (simp add: analyzeUpdateType_def analyzeRequest_def processMessage_def)

text \<open>
  Claim C3, as the code has it. Whenever the engine answers the request,
  \<open>analyzeUpdateType\<close> returns exactly one of \<open>status_only\<close>, \<open>comment_only\<close>,
  \<open>comment_and_status\<close>, and it returns \<open>comment_only\<close> when the answer has
  \<open>success: false\<close>, no or empty content, or a content that is outside the enumeration after
  trimming and lower-casing. When the call of the engine itself is rejected,
  \<open>analyzeUpdateType\<close> is rejected with the same error and returns no update type.
\<close>

theorem C3_analyze_update_default:
  "(post (analyzeRequest summary uid) = Inr response \<longrightarrow>
      (\<exists>ut. analyzeUpdateType post summary uid = Inr ut \<and>
            (ut = status_only \<or> ut = comment_only \<or> ut = comment_and_status)) \<and>
      (\<not> success response \<or> \<not> truthy (generated_content response) \<longrightarrow>
         analyzeUpdateType post summary uid = Inr comment_only) \<and>
      (\<forall>c. generated_content response = Some c \<and> toLowerCase (trim c) \<notin> updateTypeNames \<longrightarrow>
         analyzeUpdateType post summary uid = Inr comment_only)) \<and>
   (post (analyzeRequest summary uid) = Inl e \<longrightarrow> analyzeUpdateType post summary uid = Inl e)"
proof (intro conjI impI)
  assume r: "post (analyzeRequest summary uid) = Inr response"
  from analyzeUpdateType_response [of post summary uid response, OF r]
  obtain ut where ut: "analyzeUpdateType post summary uid = Inr ut" by simp
  have "ut = status_only \<or> ut = comment_only \<or> ut = comment_and_status"
    by (cases ut) simp_all
  with ut show "\<exists>ut. analyzeUpdateType post summary uid = Inr ut \<and>
            (ut = status_only \<or> ut = comment_only \<or> ut = comment_and_status)"
    by blast
next
  assume r: "post (analyzeRequest summary uid) = Inr response"
    and f: "\<not> success response \<or> \<not> truthy (generated_content response)"
  from analyzeUpdateType_response [of post summary uid response, OF r] f
  show "analyzeUpdateType post summary uid = Inr comment_only" by auto
next
  assume r: "post (analyzeRequest summary uid) = Inr response"
  show "\<forall>c. generated_content response = Some c \<and> toLowerCase (trim c) \<notin> updateTypeNames \<longrightarrow>
         analyzeUpdateType post summary uid = Inr comment_only"
  proof (intro allI impI)
    fix c assume c: "generated_content response = Some c \<and> toLowerCase (trim c) \<notin> updateTypeNames"
    then have "classifyContent c = comment_only" by (simp add: classifyContent_outside)
    with analyzeUpdateType_response [of post summary uid response, OF r] c
    show "analyzeUpdateType post summary uid = Inr comment_only" by simp
  qed
next
  assume "post (analyzeRequest summary uid) = Inl e"
  then show "analyzeUpdateType post summary uid = Inl e" by (rule analyzeUpdateType_rejected)
qed

text \<open>
  Claim C3 as stated fails where the engine call errors: the result is the error, not
  \<open>comment_only\<close>.
\<close>

theorem C3_rejected_call_counterexample:
  "analyzeUpdateType rejectingEngine (Some ''Added analytics tracking.'') ''u1'' =
     Inl (RequestFailed ''timeout of 15000ms exceeded'') \<and>
   analyzeUpdateType rejectingEngine (Some ''Added analytics tracking.'') ''u1'' \<noteq>
     Inr comment_only"
  by (simp add: analyzeUpdateType_def processMessage_def rejectingEngine_def)

text \<open>
  An engine that answers \<open>success: false\<close>, and one that rejects the request.
\<close>

theorem C3_analyze_update_default_witness:
  "analyzeUpdateType failedEngine (Some ''Added analytics tracking.'') ''u1'' = Inr comment_only \<and>
   analyzeUpdateType rejectingEngine (Some ''Added analytics tracking.'') ''u1'' =
     Inl (RequestFailed ''timeout of 15000ms exceeded'')"
proof -
  let ?summary = "Some ''Added analytics tracking.''"
  let ?failed = "\<lparr>success = False, generated_content = None, error = Some ''LLM_ERROR'',
          error_message = Some ''model unavailable''\<rparr>"
  have f: "failedEngine (analyzeRequest ?summary ''u1'') = Inr ?failed"
    by (simp add: failedEngine_def)
  have r: "rejectingEngine (analyzeRequest ?summary ''u1'') =
      Inl (RequestFailed ''timeout of 15000ms exceeded'')"
    by (simp add: rejectingEngine_def)
  from C3_analyze_update_default [of failedEngine ?summary "''u1''" ?failed] f
  have "\<not> success ?failed \<or> \<not> truthy (generated_content ?failed) \<longrightarrow>
      analyzeUpdateType failedEngine ?summary ''u1'' = Inr comment_only"
    by blast
  then have 1: "analyzeUpdateType failedEngine ?summary ''u1'' = Inr comment_only"
    by simp
  from C3_analyze_update_default [of rejectingEngine ?summary "''u1''" ?failed
        "RequestFailed ''timeout of 15000ms exceeded''"] r
  have 2: "analyzeUpdateType rejectingEngine ?summary ''u1'' =
      Inl (RequestFailed ''timeout of 15000ms exceeded'')"
    by blast
  from 1 2 show ?thesis by simp
qed

section \<open>The demo conversation and the properties on concrete sessions\<close>

lemmas demo_store_ev = demoStore_def threeTaskSession_def emptySession_def driftedSession_def
  editSession_def confirmTask_def completedTask_def editingTask_def demoTask_def

text \<open>
  The three-task session, whose first task waits for the confirmation, answered with
  \<open>not yet\<close>.
\<close>

theorem C4_non_affirmative_keeps_confirm_witness:
  "handleMessage demoEngine demoJira demoStore ''s3'' ''not yet'' ''u1'' =
     (Inr (WontUpdateYet, threeTaskSession), demoStore, [])"
proof -
  have f: "findById demoStore ''s3'' = Some threeTaskSession"
    by (simp add: findById_def demoStore_def)
  have ct: "currentTask threeTaskSession = Some confirmTask"
    by (simp add: currentTask_def threeTaskSession_def)
  have st: "state confirmTask = AWAITING_CONFIRM" by (simp add: confirmTask_def)
  have na: "\<not> isAffirmative ''not yet''" by (simp add: regex_ev)
  from f ct st na show ?thesis by (rule C4_non_affirmative_keeps_confirm)
qed

text \<open>
  The session without tasks and the session whose index has drifted to 7.
\<close>

theorem C8_guards_witness:
  "handleMessage demoEngine demoJira demoStore ''s4'' ''hello'' ''u2'' =
     (Inr (NoPendingTasks, emptySession), demoStore, []) \<and>
   handleMessage demoEngine demoJira demoStore ''s5'' ''not yet'' ''u3'' =
     dispatch demoEngine demoJira (save demoStore ''s5'' (driftedSession\<lparr>currentIndex := 0\<rparr>)) ''s5''
       (driftedSession\<lparr>currentIndex := 0\<rparr>) (hd (tasks driftedSession)) ''not yet'' ''u3''"
proof -
  have e: "findById demoStore ''s4'' = Some emptySession \<and> tasks emptySession = []"
    by (simp add: findById_def demoStore_def emptySession_def)
  have d: "findById demoStore ''s5'' = Some driftedSession \<and> tasks driftedSession \<noteq> [] \<and>
      (currentIndex driftedSession < 0 \<or>
       int (length (tasks driftedSession)) \<le> currentIndex driftedSession)"
    by (simp add: findById_def demoStore_def driftedSession_def)
  from e C8_guards [of demoStore "''s4''" emptySession demoEngine demoJira "''hello''" "''u2''"]
  have 1: "handleMessage demoEngine demoJira demoStore ''s4'' ''hello'' ''u2'' =
     (Inr (NoPendingTasks, emptySession), demoStore, [])"
    by blast
  from d C8_guards [of demoStore "''s5''" driftedSession demoEngine demoJira "''not yet''" "''u3''"]
  have 2: "handleMessage demoEngine demoJira demoStore ''s5'' ''not yet'' ''u3'' =
     dispatch demoEngine demoJira (save demoStore ''s5'' (driftedSession\<lparr>currentIndex := 0\<rparr>)) ''s5''
       (driftedSession\<lparr>currentIndex := 0\<rparr>) (hd (tasks driftedSession)) ''not yet'' ''u3''"
    by blast
  from 1 2 show ?thesis by (rule conjI)
qed

lemma startSession_demo:
  "startSession demoJira Map.empty ''s1'' ''u1'' =
     (Inr \<lparr>userId = ''u1'', currentIndex = 0, tasks = [demoTask]\<rparr>, demoStore0)"
  unfolding demoStore0_eval
  by (simp add: conv_ev jira_ev demo_ev demoTask_def)

text \<open>
  The started demo session, and a turn on the session whose index has drifted.
\<close>

theorem C5_current_index_in_range_witness:
  "inRange (persisted \<lparr>userId = ''u1'', currentIndex = 0, tasks = [demoTask]\<rparr>) \<and>
   inRange (fst (indexDriftGuard demoStore ''s5'' driftedSession)) \<and>
   (\<exists>s'. storeAfter (handleMessage demoEngine demoJira demoStore ''s5'' ''not yet'' ''u3'') ''s5'' =
           Some s' \<and> inRange s')"
proof -
  let ?s0 = "\<lparr>userId = ''u1'', currentIndex = 0, tasks = [demoTask]\<rparr>"
  have ne0: "tasks ?s0 \<noteq> []" by simp
  have d: "findById demoStore ''s5'' = Some driftedSession \<and> tasks driftedSession \<noteq> []"
    by (simp add: findById_def demoStore_def driftedSession_def)
  note inst1 = C5_current_index_in_range [where jira = demoJira and store = Map.empty
      and newId = "''s1''" and uid = "''u1''" and ?s0.0 = ?s0 and ?store0.0 = demoStore0]
  note inst2 = C5_current_index_in_range [where store = demoStore and sid = "''s5''"
      and s = driftedSession and post = demoEngine and jira = demoJira and msg = "''not yet''"
      and uid = "''u3''"]
  from inst1 startSession_demo ne0 have 1: "inRange (persisted ?s0)" by blast
  from inst2 d have 2: "inRange (fst (indexDriftGuard demoStore ''s5'' driftedSession))" by blast
  from inst2 d have 3: "\<exists>s'. storeAfter (handleMessage demoEngine demoJira demoStore ''s5''
      ''not yet'' ''u3'') ''s5'' = Some s' \<and> inRange s'" by blast
  from 1 2 3 show ?thesis by blast
qed

lemma demoConfirm_eval:
  "fst (handleMessage demoEngine demoJira demoStore ''s3'' ''yes'' ''u1'') =
     Inr (MovedToNextTask ''Write release notes'', advancedSession)"
  by (simp add: conv_ev llm_ev str_ev jira_ev demo_ev regex_ev demo_store_ev advancedSession_def)

text \<open>
  The three-task session confirmed with \<open>yes\<close>: the second task is completed, so the
  session moves to the third.
\<close>

theorem C6_advance_to_next_pending_witness:
  "storeAfter (handleMessage demoEngine demoJira demoStore ''s3'' ''yes'' ''u1'') ''s3'' =
     Some (persisted advancedSession) \<and>
   state (tasks advancedSession ! 0) = COMPLETED \<and>
   currentIndex advancedSession = 2 \<and>
   state (tasks advancedSession ! 2) = AWAITING_UPDATE"
proof -
  let ?h = "handleMessage demoEngine demoJira demoStore ''s3'' ''yes'' ''u1''"
  have f: "findById demoStore ''s3'' = Some threeTaskSession"
    by (simp add: findById_def demoStore_def)
  have ct: "currentTask threeTaskSession = Some confirmTask"
    by (simp add: currentTask_def threeTaskSession_def)
  have st: "state confirmTask = AWAITING_CONFIRM" by (simp add: confirmTask_def)
  have af: "isAffirmative ''yes''" by (simp add: regex_ev)
  have h: "?h = (Inr (MovedToNextTask ''Write release notes'', advancedSession),
                 storeAfter ?h, traceOf ?h)"
    using demoConfirm_eval by (simp add: storeAfter_def traceOf_def prod_eq_iff)
  have np: "isNextPending (tasks threeTaskSession) (nat (currentIndex threeTaskSession)) 2"
    by (auto simp: isNextPending_def threeTaskSession_def completedTask_def editingTask_def
        less_Suc_eq numeral_2_eq_2)
  from C6_advance_to_next_pending [OF f ct st af h] np
  have "storeAfter ?h ''s3'' = Some (persisted advancedSession) \<and>
        state (tasks advancedSession ! nat (currentIndex threeTaskSession)) = COMPLETED \<and>
        currentIndex advancedSession = int 2 \<and>
        state (tasks advancedSession ! 2) = AWAITING_UPDATE"
    by blast
  then show ?thesis by (simp add: threeTaskSession_def)
qed

lemma reachable_demo: "reachable (storeAfter demoTurn2)"
proof -
  have r1: "reachable demoStore0"
    using reachable.emptyStore startSession_demo by (rule reachable.started)
  have "handleMessage demoEngine demoJira demoStore0 ''s1'' ''completed, added tracking'' ''u1'' =
      (fst demoTurn1, storeAfter demoTurn1, traceOf demoTurn1)"
    by (simp add: demoTurn1_def storeAfter_def traceOf_def)
  with r1 have r2: "reachable (storeAfter demoTurn1)" by (rule reachable.handled)
  have "handleMessage demoEngine demoJira (storeAfter demoTurn1) ''s1'' ''no'' ''u1'' =
      (fst demoTurn2, storeAfter demoTurn2, traceOf demoTurn2)"
    by (simp add: demoTurn2_def storeAfter_def traceOf_def)
  with r2 show ?thesis by (rule reachable.handled)
qed

lemma reachable_lax: "reachable (storeAfter laxTurn2)"
proof -
  have "startSession laxJira Map.empty ''s1'' ''u1'' =
      (fst (startSession laxJira Map.empty ''s1'' ''u1''), laxStore0)"
    by (simp add: laxStore0_def)
  with reachable.emptyStore have r1: "reachable laxStore0" by (rule reachable.started)
  have "handleMessage statusEngine laxJira laxStore0 ''s1'' ''added tracking'' ''u1'' =
      (fst laxTurn1, storeAfter laxTurn1, traceOf laxTurn1)"
    by (simp add: laxTurn1_def storeAfter_def traceOf_def)
  with r1 have r2: "reachable (storeAfter laxTurn1)" by (rule reachable.handled)
  have "handleMessage statusEngine laxJira (storeAfter laxTurn1) ''s1'' ''no'' ''u1'' =
      (fst laxTurn2, storeAfter laxTurn2, traceOf laxTurn2)"
    by (simp add: laxTurn2_def storeAfter_def traceOf_def)
  with r2 show ?thesis by (rule reachable.handled)
qed

text \<open>
  Claim C2 as stated fails on a store that \<open>startSession\<close> and \<open>handleMessage\<close> produce: Jira
  answers the query for the pending issues with an issue whose status is \<open>Done\<close>, the
  engine classifies the draft as \<open>status_only\<close>, and the confirming turn completes the task
  without any call of the ticket API.
\<close>

theorem C2_completed_without_commit_counterexample:
  "reachable (storeAfter laxTurn2) \<and>
   laxTurn3 = handleMessage statusEngine laxJira (storeAfter laxTurn2) ''s1'' ''yes'' ''u1'' \<and>
   map_option (map state \<circ> tasks) (storeAfter laxTurn2 ''s1'') = Some [AWAITING_CONFIRM] \<and>
   map_option (map state \<circ> tasks) (storeAfter laxTurn3 ''s1'') = Some [COMPLETED] \<and>
   traceOf laxTurn3 = [] \<and>
   \<not> committedMutation (traceOf laxTurn3)"
proof -
  have a: "laxTurn3 = handleMessage statusEngine laxJira (storeAfter laxTurn2) ''s1'' ''yes'' ''u1''"
    by (simp add: laxTurn3_def)
  have b: "map_option (map state \<circ> tasks) (storeAfter laxTurn2 ''s1'') = Some [AWAITING_CONFIRM]"
    by (simp add: laxTurn2_eval storeAfter_def)
  have c: "map_option (map state \<circ> tasks) (storeAfter laxTurn3 ''s1'') = Some [COMPLETED]"
    by (simp add: laxTurn3_eval storeAfter_def)
  have d: "traceOf laxTurn3 = []"
    by (simp add: laxTurn3_eval traceOf_def)
  then have e: "\<not> committedMutation (traceOf laxTurn3)"
    by (simp add: committedMutation_def)
  from reachable_lax a b c d e show ?thesis by (intro conjI)
qed

text \<open>
  The demo conversation, whose third turn completes the task after the comment was added;
  and the conversation on the issue that is already \<open>Done\<close>, whose third turn is of the
  third kind.
\<close>

theorem C2_completed_after_commit_or_done_witness:
  "committedMutation (traceOf demoTurn3) \<and>
   map_option (map status \<circ> tasks) (storeAfter laxTurn2 ''s1'') = Some [''Done''] \<and>
   analyzeUpdateType statusEngine (Some ''Added analytics tracking.'') ''u1'' = Inr status_only"
proof -
  let ?done = "demoTask\<lparr>draftSummary := Some ''Added analytics tracking.'',
                         finalSummary := Some ''Added analytics tracking.'', state := COMPLETED\<rparr>"
  let ?s' = "\<lparr>userId = ''u1'', currentIndex = 0, tasks = [?done]\<rparr>"
  have h: "handleMessage demoEngine demoJira (storeAfter demoTurn2) ''s1'' ''yes'' ''u1'' =
      (fst demoTurn3, storeAfter demoTurn3, traceOf demoTurn3)"
    by (simp add: demoTurn3_def storeAfter_def traceOf_def)
  have x: "storeAfter demoTurn3 ''s1'' = Some ?s'"
    by (simp add: demoTurn3_eval storeAfter_def)
  have k: "0 < length (tasks ?s')" by simp
  have c: "state (tasks ?s' ! 0) = COMPLETED" by simp
  have before: "\<not> (\<exists>s. storeAfter demoTurn2 ''s1'' = Some s \<and> 0 < length (tasks s) \<and>
      state (tasks s ! 0) = COMPLETED)"
    by (simp add: demoTurn2_eval storeAfter_def)
  have notDone: "\<not> (\<exists>s. storeAfter demoTurn2 ''s1'' = Some s \<and> 0 < length (tasks s) \<and>
      state (tasks s ! 0) = AWAITING_CONFIRM \<and> status (tasks s ! 0) = ''Done'' \<and>
      analyzeUpdateType demoEngine (draftSummary (tasks s ! 0)) ''u1'' = Inr status_only \<and>
      traceOf demoTurn3 = [])"
    by (simp add: demoTurn2_eval storeAfter_def demoTask_def)
  from C2_completed_after_commit_or_done [OF h x k c] before notDone
  have 1: "committedMutation (traceOf demoTurn3)" by blast
  let ?ldone = "demoTask\<lparr>status := ''Done'', draftSummary := Some ''Added analytics tracking.'',
                         finalSummary := Some ''Added analytics tracking.'', state := COMPLETED\<rparr>"
  let ?l' = "\<lparr>userId = ''u1'', currentIndex = 0, tasks = [?ldone]\<rparr>"
  have lh: "handleMessage statusEngine laxJira (storeAfter laxTurn2) ''s1'' ''yes'' ''u1'' =
      (fst laxTurn3, storeAfter laxTurn3, traceOf laxTurn3)"
    by (simp add: laxTurn3_def storeAfter_def traceOf_def)
  have lx: "storeAfter laxTurn3 ''s1'' = Some ?l'"
    by (simp add: laxTurn3_eval storeAfter_def)
  have lk: "0 < length (tasks ?l')" by simp
  have lc: "state (tasks ?l' ! 0) = COMPLETED" by simp
  have lbefore: "\<not> (\<exists>s. storeAfter laxTurn2 ''s1'' = Some s \<and> 0 < length (tasks s) \<and>
      state (tasks s ! 0) = COMPLETED)"
    by (simp add: laxTurn2_eval storeAfter_def)
  have lno: "\<not> committedMutation (traceOf laxTurn3)"
    by (simp add: laxTurn3_eval traceOf_def committedMutation_def)
  from C2_completed_after_commit_or_done [OF lh lx lk lc] lbefore lno
  have "\<exists>s. storeAfter laxTurn2 ''s1'' = Some s \<and> 0 < length (tasks s) \<and>
      state (tasks s ! 0) = AWAITING_CONFIRM \<and> status (tasks s ! 0) = ''Done'' \<and>
      analyzeUpdateType statusEngine (draftSummary (tasks s ! 0)) ''u1'' = Inr status_only \<and>
      traceOf laxTurn3 = []"
    by blast
  then have 2: "map_option (map status \<circ> tasks) (storeAfter laxTurn2 ''s1'') = Some [''Done''] \<and>
      analyzeUpdateType statusEngine (Some ''Added analytics tracking.'') ''u1'' = Inr status_only"
    by (auto simp: laxTurn2_eval storeAfter_def)
  from 1 2 show ?thesis by simp
qed

section \<open>The retry loop\<close>

declare retryLoop.simps [simp del]

lemma retryLoop_retry:
  assumes "attempt < retryAttempts" and "engineAt attempt = Inl err" and "isRetryable err"
  shows "retryLoop engineAt attempt waited lastError =
           retryLoop engineAt (attempt + 1) (waited @ [backoff attempt]) err"
  using assms by (simp add: retryLoop.simps [of engineAt attempt])

lemma retryLoop_exhausted:
  "retryLoop engineAt retryAttempts waited lastError =
     \<lparr>outcome = Inl lastError, engineCalls = retryAttempts, waits = waited\<rparr>"
  by (simp add: retryLoop.simps [of engineAt retryAttempts])

lemma retryLoop_response:
  assumes "attempt < retryAttempts" and "engineAt attempt = Inr response"
  shows "retryLoop engineAt attempt waited lastError =
           \<lparr>outcome = Inr (if success response then mapSuccess response
                            else engineFailure response),
            engineCalls = attempt + 1, waits = waited\<rparr>"
  using assms by (simp add: retryLoop.simps [of engineAt attempt])

lemma retryLoop_fatal:
  assumes "attempt < retryAttempts" and "engineAt attempt = Inl err" and "\<not> isRetryable err"
  shows "retryLoop engineAt attempt waited lastError =
           \<lparr>outcome = Inl err, engineCalls = attempt + 1, waits = waited\<rparr>"
  using assms by (simp add: retryLoop.simps [of engineAt attempt])

lemma retryableFailure_iff:
  "retryableFailure engineAt a \<longleftrightarrow> (\<exists>err. engineAt a = Inl err \<and> isRetryable err)"
  by (auto simp: retryableFailure_def split: sum.splits)

text \<open>The loop runs through a stretch of retryable failures, waiting after each.\<close>

lemma retryLoop_skip:
  assumes "\<forall>a. attempt \<le> a \<and> a < k \<longrightarrow> retryableFailure engineAt a"
    and "attempt \<le> k" and "k \<le> retryAttempts"
  shows "retryLoop engineAt attempt waited lastError =
           retryLoop engineAt k (waited @ map backoff [attempt..<k])
             (if attempt < k then errorAt engineAt (k - 1) else lastError)"
  using assms
proof (induction "k - attempt" arbitrary: attempt waited lastError)
  case 0
  then have "attempt = k" by simp
  then show ?case by simp
next
  case (Suc n)
  then have lt: "attempt < k" by simp
  with Suc.prems obtain err where e: "engineAt attempt = Inl err" "isRetryable err"
    by (auto simp: retryableFailure_iff)
  from lt Suc.prems have "attempt < retryAttempts" by simp
  then have step: "retryLoop engineAt attempt waited lastError =
      retryLoop engineAt (attempt + 1) (waited @ [backoff attempt]) err"
    using e by (rule retryLoop_retry)
  from Suc.hyps(2) have n: "n = k - (attempt + 1)" by simp
  from Suc.prems lt
  have pre: "\<forall>a. attempt + 1 \<le> a \<and> a < k \<longrightarrow> retryableFailure engineAt a" "attempt + 1 \<le> k"
    by simp_all
  from Suc.hyps(1) [OF n pre Suc.prems(3), of "waited @ [backoff attempt]" err]
  have r: "retryLoop engineAt (attempt + 1) (waited @ [backoff attempt]) err =
        retryLoop engineAt k ((waited @ [backoff attempt]) @ map backoff [attempt + 1..<k])
          (if attempt + 1 < k then errorAt engineAt (k - 1) else err)" .
  from lt have upt: "[attempt..<k] = attempt # [attempt + 1..<k]" by (simp add: upt_conv_Cons)
  have last: "(if attempt + 1 < k then errorAt engineAt (k - 1) else err) = errorAt engineAt (k - 1)"
  proof (cases "attempt + 1 < k")
    case True then show ?thesis by simp
  next
    case False
    with lt have "k - 1 = attempt" by simp
    with e False show ?thesis by (simp add: errorAt_def)
  qed
  from step r upt last lt show ?case by simp
qed

text \<open>
  A run ends at the first attempt that is not a retryable failure, or after the last
  attempt: \<open>k\<close> retryable failures come first.
\<close>

lemma retryLoop_run:
  assumes lead: "\<forall>a < k. retryableFailure engineAt a" and k: "k \<le> retryAttempts"
  shows "retryLoop engineAt 0 [] nullError =
           retryLoop engineAt k (map backoff [0..<k])
             (if 0 < k then errorAt engineAt (k - 1) else nullError)"
  using retryLoop_skip [of 0 k engineAt "[]" nullError] lead k by simp

lemma processMessage_run:
  assumes rate: "enforceRateLimits u c = Inr ()"
    and lead: "\<forall>a < k. retryableFailure engineAt a"
    and stop: "k = retryAttempts \<or> (k < retryAttempts \<and> \<not> retryableFailure engineAt k)"
  shows "engineCalls (AIService_processMessage engineAt u c) = min (k + 1) retryAttempts \<and>
         waits (AIService_processMessage engineAt u c) = map backoff [0..<k] \<and>
         (k = retryAttempts \<longrightarrow>
            outcome (AIService_processMessage engineAt u c) =
              Inr (caughtFailure (errorAt engineAt (k - 1)))) \<and>
         (\<forall>err. k < retryAttempts \<and> engineAt k = Inl err \<longrightarrow>
            outcome (AIService_processMessage engineAt u c) = Inr (caughtFailure err)) \<and>
         (\<forall>response. k < retryAttempts \<and> engineAt k = Inr response \<longrightarrow>
            outcome (AIService_processMessage engineAt u c) =
              Inr (if success response then mapSuccess response else engineFailure response))"
proof -
  from stop have kle: "k \<le> retryAttempts" by auto
  note run = retryLoop_run [OF lead kle]
  from stop show ?thesis
  proof
    assume full: "k = retryAttempts"
    then have "0 < k" by (simp add: retryAttempts_def)
    with run full rate show ?thesis
      by (simp add: AIService_processMessage_def retryLoop_exhausted Let_def)
  next
    assume part: "k < retryAttempts \<and> \<not> retryableFailure engineAt k"
    show ?thesis
    proof (cases "engineAt k")
      case (Inl err)
      with part have "\<not> isRetryable err" by (simp add: retryableFailure_def)
      with part Inl run rate show ?thesis
        by (simp add: AIService_processMessage_def retryLoop_fatal Let_def)
    next
      case (Inr response)
      with part run rate show ?thesis
        by (simp add: AIService_processMessage_def retryLoop_response Let_def)
    qed
  qed
qed

lemma backoff_exponential: "a < 2 \<Longrightarrow> backoff a = 1000 * 2 ^ a"
proof -
  assume "a < 2"
  then have "a = 0 \<or> a = 1" by arith
  then show ?thesis by (auto simp: backoff_def)
qed

lemma backoff_capped: "a < retryAttempts \<Longrightarrow> backoff a = min (1000 * 2 ^ a) 3000"
proof -
  assume "a < retryAttempts"
  then have "a = 0 \<or> a = 1 \<or> a = 2" by (simp add: retryAttempts_def) arith
  then show ?thesis by (auto simp: backoff_def)
qed

lemma retryable_statuses:
  "isRetryable (httpError st) = (st \<in> {408, 425, 429, 500, 502, 503, 504})"
  by (auto simp: isRetryable_def httpError_def)

lemma retryable_timeout: "isRetryable timeoutError"
  by (simp add: isRetryable_def timeoutError_def)

text \<open>
  Claim C7, as the code has it. In a run that passes the rate limit and whose first \<open>k\<close>
  attempts fail in a retryable way, the engine is called \<open>k + 1\<close> times, and at most 3
  times in all: the first call and at most two retries. Before the retry that follows the
  failed attempt number \<open>a\<close> the service waits \<open>1000 * 2 ^ a\<close> milliseconds, and every wait
  is \<open>min (1000 * 2 ^ a) 3000\<close>: the backoff is exponential, with the base delay 1000, and
  capped. A failure that is not retryable ends the run with that call, without a further
  call and without a wait after it. Retryable are exactly the statuses 408, 425, 429, 500,
  502, 503 and 504, among them rate-limited and service-unavailable, and a timeout of the
  transport; unauthorized (401) and malformed request (400) are not.
\<close>

theorem C7_retry_policy:
  assumes "enforceRateLimits u c = Inr ()"
    and "\<forall>a < k. retryableFailure engineAt a"
    and "k = retryAttempts \<or> (k < retryAttempts \<and> \<not> retryableFailure engineAt k)"
  shows "engineCalls (AIService_processMessage engineAt u c) = min (k + 1) 3 \<and>
         (\<forall>a. a + 1 < engineCalls (AIService_processMessage engineAt u c) \<longrightarrow>
            a < length (waits (AIService_processMessage engineAt u c)) \<and>
            waits (AIService_processMessage engineAt u c) ! a = 1000 * 2 ^ a) \<and>
         (\<forall>a < length (waits (AIService_processMessage engineAt u c)).
            waits (AIService_processMessage engineAt u c) ! a = min (1000 * 2 ^ a) 3000) \<and>
         (\<forall>err. k < 3 \<and> engineAt k = Inl err \<longrightarrow>
            outcome (AIService_processMessage engineAt u c) = Inr (caughtFailure err) \<and>
            engineCalls (AIService_processMessage engineAt u c) = k + 1 \<and>
            length (waits (AIService_processMessage engineAt u c)) = k) \<and>
         (\<forall>response. k < 3 \<and> engineAt k = Inr response \<longrightarrow>
            outcome (AIService_processMessage engineAt u c) =
              Inr (if success response then mapSuccess response else engineFailure response)) \<and>
         (k = 3 \<longrightarrow>
            outcome (AIService_processMessage engineAt u c) =
              Inr (caughtFailure (errorAt engineAt 2))) \<and>
         (\<forall>st. isRetryable (httpError st) = (st \<in> {408, 425, 429, 500, 502, 503, 504})) \<and>
         isRetryable (httpError 429) \<and> isRetryable (httpError 503) \<and> isRetryable timeoutError \<and>
         \<not> isRetryable (httpError 401) \<and> \<not> isRetryable (httpError 400)"
proof -
  let ?r = "AIService_processMessage engineAt u c"
  note run = processMessage_run [OF assms]
  from assms(3) have k3: "k \<le> 3" by (auto simp: retryAttempts_def)
  from run have calls: "engineCalls ?r = min (k + 1) 3" by (simp add: retryAttempts_def)
  from run have w: "waits ?r = map backoff [0..<k]" by simp
  then have len: "length (waits ?r) = k" by simp
  have before: "\<forall>a. a + 1 < engineCalls ?r \<longrightarrow>
      a < length (waits ?r) \<and> waits ?r ! a = 1000 * 2 ^ a"
  proof (intro allI impI)
    fix a assume "a + 1 < engineCalls ?r"
    with calls have a: "a < k" "a < 2" by simp_all
    with w have "waits ?r ! a = backoff a" by simp
    with a len show "a < length (waits ?r) \<and> waits ?r ! a = 1000 * 2 ^ a"
      by (simp add: backoff_exponential)
  qed
  have capped: "\<forall>a < length (waits ?r). waits ?r ! a = min (1000 * 2 ^ a) 3000"
  proof (intro allI impI)
    fix a assume "a < length (waits ?r)"
    with len have a: "a < k" by simp
    with k3 have "a < retryAttempts" by (simp add: retryAttempts_def)
    then have "backoff a = min (1000 * 2 ^ a) 3000" by (rule backoff_capped)
    with w a show "waits ?r ! a = min (1000 * 2 ^ a) 3000" by simp
  qed
  have fatal: "\<forall>err. k < 3 \<and> engineAt k = Inl err \<longrightarrow>
      outcome ?r = Inr (caughtFailure err) \<and> engineCalls ?r = k + 1 \<and> length (waits ?r) = k"
    using run calls len by (auto simp: retryAttempts_def)
  have resp: "\<forall>response. k < 3 \<and> engineAt k = Inr response \<longrightarrow>
      outcome ?r = Inr (if success response then mapSuccess response else engineFailure response)"
    using run by (simp add: retryAttempts_def)
  have full: "k = 3 \<longrightarrow> outcome ?r = Inr (caughtFailure (errorAt engineAt 2))"
    using run by (auto simp: retryAttempts_def)
  have cls: "\<forall>st. isRetryable (httpError st) = (st \<in> {408, 425, 429, 500, 502, 503, 504})"
    by (simp only: retryable_statuses) simp
  have c1: "isRetryable (httpError 429)" "isRetryable (httpError 503)"
    "\<not> isRetryable (httpError 401)" "\<not> isRetryable (httpError 400)"
    by (simp_all add: retryable_statuses)
  from calls before capped fatal resp full cls c1 retryable_timeout show ?thesis
    by (intro conjI)
qed

lemma recoversAtFourth_run:
  "engineCalls (AIService_processMessage recoversAtFourth (Some ''u1'') 1) = 3 \<and>
   outcome (AIService_processMessage recoversAtFourth (Some ''u1'') 1) =
     Inr (AIFailure ''INTERNAL_ERROR'' ''Request failed'')"
proof -
  have rate: "enforceRateLimits (Some ''u1'') 1 = Inr ()" by (simp add: enforceRateLimits_def)
  have lead: "\<forall>a < 3. retryableFailure recoversAtFourth a"
    by (simp add: retryableFailure_def recoversAtFourth_def isRetryable_def httpError_def)
  have stop: "3 = retryAttempts \<or> (3 < retryAttempts \<and> \<not> retryableFailure recoversAtFourth 3)"
    by (simp add: retryAttempts_def)
  have "caughtFailure (errorAt recoversAtFourth 2) = AIFailure ''INTERNAL_ERROR'' ''Request failed''"
    by (simp add: caughtFailure_def errorAt_def recoversAtFourth_def httpError_def getErrorCode_def)
  with processMessage_run [OF rate lead stop] show ?thesis
    by (simp add: retryAttempts_def)
qed

text \<open>
  Claim C7 as stated fails in the number of retries: against an engine that fails three
  times in a retryable way and would answer the fourth call, the service stops after three
  calls, that is after two retries, and reports the failure.
\<close>

theorem C7_third_retry_counterexample:
  "retryableFailure recoversAtFourth 0 \<and> retryableFailure recoversAtFourth 1 \<and>
   retryableFailure recoversAtFourth 2 \<and> recoversAtFourth 3 = Inr okResponse \<and>
   engineCalls (AIService_processMessage recoversAtFourth (Some ''u1'') 1) = 3 \<and>
   outcome (AIService_processMessage recoversAtFourth (Some ''u1'') 1) =
     Inr (AIFailure ''INTERNAL_ERROR'' ''Request failed'')"
proof -
  have "retryableFailure recoversAtFourth 0" "retryableFailure recoversAtFourth 1"
    "retryableFailure recoversAtFourth 2" "recoversAtFourth 3 = Inr okResponse"
    by (simp_all add: retryableFailure_def recoversAtFourth_def isRetryable_def httpError_def)
  with recoversAtFourth_run show ?thesis by simp
qed

text \<open>
  An engine that always answers 503, and one that always answers 401.
\<close>

theorem C7_retry_policy_witness:
  "engineCalls (AIService_processMessage alwaysUnavailable (Some ''u1'') 1) = 3 \<and>
   waits (AIService_processMessage alwaysUnavailable (Some ''u1'') 1) ! 0 = 1000 \<and>
   waits (AIService_processMessage alwaysUnavailable (Some ''u1'') 1) ! 1 = 2000 \<and>
   engineCalls (AIService_processMessage alwaysUnauthorized (Some ''u1'') 1) = 1 \<and>
   waits (AIService_processMessage alwaysUnauthorized (Some ''u1'') 1) = [] \<and>
   outcome (AIService_processMessage alwaysUnauthorized (Some ''u1'') 1) =
     Inr (caughtFailure (httpError 401))"
proof -
  let ?r = "AIService_processMessage alwaysUnavailable (Some ''u1'') 1"
  have rate: "enforceRateLimits (Some ''u1'') 1 = Inr ()" by (simp add: enforceRateLimits_def)
  have lead3: "\<forall>a < 3. retryableFailure alwaysUnavailable a"
    by (simp add: retryableFailure_def alwaysUnavailable_def isRetryable_def httpError_def)
  have stop3: "3 = retryAttempts \<or> (3 < retryAttempts \<and> \<not> retryableFailure alwaysUnavailable 3)"
    by (simp add: retryAttempts_def)
  have lead0: "\<forall>a < 0. retryableFailure alwaysUnauthorized a" by simp
  have stop0: "0 = retryAttempts \<or> (0 < retryAttempts \<and> \<not> retryableFailure alwaysUnauthorized 0)"
    by (simp add: retryAttempts_def retryableFailure_def alwaysUnauthorized_def isRetryable_def
        httpError_def)
  note p3 = C7_retry_policy [OF rate lead3 stop3]
  from p3 have calls: "engineCalls ?r = 3" by simp
  from p3 have "\<forall>a. a + 1 < engineCalls ?r \<longrightarrow> a < length (waits ?r) \<and> waits ?r ! a = 1000 * 2 ^ a"
    by blast
  with calls have w: "\<forall>a. a + 1 < 3 \<longrightarrow> waits ?r ! a = 1000 * 2 ^ a" by simp
  from w have w0: "waits ?r ! 0 = 1000" by (drule_tac x = 0 in spec) simp
  from w have w1: "waits ?r ! 1 = 2000" by (drule_tac x = 1 in spec) simp
  have e: "alwaysUnauthorized 0 = Inl (httpError 401)" by (simp add: alwaysUnauthorized_def)
  from C7_retry_policy [OF rate lead0 stop0] e
  have 2: "engineCalls (AIService_processMessage alwaysUnauthorized (Some ''u1'') 1) = 1 \<and>
      waits (AIService_processMessage alwaysUnauthorized (Some ''u1'') 1) = [] \<and>
      outcome (AIService_processMessage alwaysUnauthorized (Some ''u1'') 1) =
        Inr (caughtFailure (httpError 401))"
    by simp
  from calls w0 w1 2 show ?thesis by simp
qed

section \<open>The draft summary\<close>

lemma dropWhile_rev_nonempty: "dropWhile P (rev a) \<noteq> [] \<Longrightarrow> a \<noteq> []"
  by auto

lemma trim_idem: "trim (trim s) = trim s"
proof -
  let ?a = "dropWhile isWhiteSpace s"
  let ?d = "dropWhile isWhiteSpace (rev ?a)"
  have b: "trim s = rev ?d" by (simp add: trim_def)
  have "rev ?d = [] \<or> \<not> isWhiteSpace (hd (rev ?d))"
  proof (cases "?d = []")
    case True then show ?thesis by simp
  next
    case False
    then have ane: "?a \<noteq> []" by (rule dropWhile_rev_nonempty)
    have "rev ?a = takeWhile isWhiteSpace (rev ?a) @ ?d" by simp
    with False have "last ?d = last (rev ?a)" by (metis last_appendR)
    then have "last ?d = hd ?a" by (simp add: last_rev)
    moreover from ane have "\<not> isWhiteSpace (hd ?a)" by (rule hd_dropWhile)
    ultimately show ?thesis by (simp add: hd_rev)
  qed
  then have "dropWhile isWhiteSpace (rev ?d) = rev ?d" by (simp add: dropWhile_eq_self_iff)
  then have "trim (rev ?d) = rev (dropWhile isWhiteSpace ?d)" by (simp add: trim_def)
  then have "trim (rev ?d) = rev ?d" by simp
  with b show ?thesis by simp
qed

lemma generateSummary_Inr:
  assumes "generateSummary post msg t uid = Inr raw"
  shows "\<exists>c. answeredWith post (summaryRequest msg t uid) c \<and> raw = trim c"
  using assms
  by (auto simp: generateSummary_def summaryRequest_def processMessage_def ensureSuccess_def
      trimmedContent_def answeredWith_def split: sum.splits option.splits if_splits)

lemma applyEdits_Inr:
  assumes "applyEdits post summary msg uid = Inr raw"
  shows "\<exists>c. answeredWith post (editsRequest summary msg uid) c \<and> raw = trim c"
  using assms
  by (auto simp: applyEdits_def editsRequest_def processMessage_def ensureSuccess_def
      trimmedContent_def answeredWith_def split: sum.splits option.splits if_splits)

lemma generateSummary_answered:
  assumes "answeredWith post (summaryRequest msg t uid) c"
  shows "generateSummary post msg t uid = Inr (trim c)"
  using assms
  by (auto simp: generateSummary_def summaryRequest_def processMessage_def ensureSuccess_def
      trimmedContent_def answeredWith_def split: sum.splits)

lemma generateSummary_unanswered:
  assumes "\<forall>c. \<not> answeredWith post (summaryRequest msg t uid) c"
  shows "\<exists>e. generateSummary post msg t uid = Inl e"
proof (cases "generateSummary post msg t uid")
  case (Inl e)
  then show ?thesis by simp
next
  case (Inr raw)
  from generateSummary_Inr [OF this] assms show ?thesis by blast
qed

lemma applyEdits_answered:
  assumes "answeredWith post (editsRequest summary msg uid) c"
  shows "applyEdits post summary msg uid = Inr (trim c)"
  using assms
  by (auto simp: applyEdits_def editsRequest_def processMessage_def ensureSuccess_def
      trimmedContent_def answeredWith_def split: sum.splits)

lemma applyEdits_unanswered:
  assumes "\<forall>c. \<not> answeredWith post (editsRequest summary msg uid) c"
  shows "\<exists>e. applyEdits post summary msg uid = Inl e"
proof (cases "applyEdits post summary msg uid")
  case (Inl e)
  then show ?thesis by simp
next
  case (Inr raw)
  from applyEdits_Inr [OF this] assms show ?thesis by blast
qed

lemma onAwaitingUpdate_answered:
  assumes a: "answeredWith post (summaryRequest msg (title task) uid) c" and rng: "inRange s"
    and o: "onAwaitingUpdate post store sid s task msg uid = (res, store', tr)"
  shows "\<exists>r s'. res = Inr (r, s') \<and> store' = save store sid s' \<and> tr = [] \<and>
           draftSummary (tasks s' ! nat (currentIndex s)) =
             Some (if trim c = [] then ''Update noted.'' else trim c)"
proof -
  from a have g: "generateSummary post msg (title task) uid = Inr (trim c)"
    by (rule generateSummary_answered)
  from rng have i: "nat (currentIndex s) < length (tasks s)"
    by (simp add: inRange_def nat_less_iff)
  from o g i show ?thesis
    by (auto simp: onAwaitingUpdate_def Let_def setCurrentTask_def trim_idem)
qed

lemma onAwaitingUpdate_unanswered:
  assumes a: "\<forall>c. \<not> answeredWith post (summaryRequest msg (title task) uid) c"
    and o: "onAwaitingUpdate post store sid s task msg uid = (res, store', tr)"
  shows "(\<exists>e. res = Inl e) \<and> store' = store \<and> tr = []"
proof -
  from a obtain e where "generateSummary post msg (title task) uid = Inl e"
    using generateSummary_unanswered by blast
  with o show ?thesis by (auto simp: onAwaitingUpdate_def)
qed

lemma onAwaitingEditInput_answered:
  assumes a: "answeredWith post (editsRequest (draftSummary task) msg uid) c" and rng: "inRange s"
    and o: "onAwaitingEditInput post store sid s task msg uid = (res, store', tr)"
  shows "\<exists>r s'. res = Inr (r, s') \<and> store' = save store sid s' \<and> tr = [] \<and>
           draftSummary (tasks s' ! nat (currentIndex s)) =
             (if trim c = [] then draftSummary task else Some (trim c))"
proof -
  from a have g: "applyEdits post (draftSummary task) msg uid = Inr (trim c)"
    by (rule applyEdits_answered)
  from rng have i: "nat (currentIndex s) < length (tasks s)"
    by (simp add: inRange_def nat_less_iff)
  from o g i show ?thesis
    by (auto simp: onAwaitingEditInput_def Let_def setCurrentTask_def trim_idem)
qed

lemma onAwaitingEditInput_unanswered:
  assumes a: "\<forall>c. \<not> answeredWith post (editsRequest (draftSummary task) msg uid) c"
    and o: "onAwaitingEditInput post store sid s task msg uid = (res, store', tr)"
  shows "(\<exists>e. res = Inl e) \<and> store' = store \<and> tr = []"
proof -
  from a obtain e where "applyEdits post (draftSummary task) msg uid = Inl e"
    using applyEdits_unanswered by blast
  with o show ?thesis by (auto simp: onAwaitingEditInput_def)
qed

lemma persisted_draftSummary:
  "draftSummary (tasks (persisted s) ! i) = draftSummary (tasks s ! i)" if "i < length (tasks s)"
  using that by (simp add: persisted_def persistedTask_def)

text \<open>
  In every reachable store, a task that waits for the edit decision or for the edits has a
  draft.
\<close>

lemma drafted_persisted: "drafted (persisted s) = drafted s"
  by (auto simp: drafted_def persisted_def persistedTask_def)

lemma drafted_setCurrentTask:
  assumes "drafted s"
    and "state t = AWAITING_EDIT_DECISION \<or> state t = AWAITING_EDIT_INPUT \<longrightarrow>
         truthy (draftSummary t)"
  shows "drafted (setCurrentTask s t)"
proof -
  have "set ((tasks s)[nat (currentIndex s) := t]) \<subseteq> insert t (set (tasks s))"
    by (rule set_update_subset_insert)
  with assms show ?thesis
    unfolding drafted_def setCurrentTask_def by auto
qed

lemma drafted_currentIndex: "drafted (s\<lparr>currentIndex := i\<rparr>) = drafted s"
  by (simp add: drafted_def)

lemma drafted_finalizeAndAdvance:
  assumes "drafted s" and "finalizeAndAdvance s t = (r, s')"
  shows "drafted s'"
proof -
  let ?s1 = "setCurrentTask s (finalized t)"
  have d1: "drafted ?s1" using assms(1) by (rule drafted_setCurrentTask) (simp add: finalized_def)
  show ?thesis
  proof (cases "nextActionable (tasks ?s1) (nat (currentIndex ?s1 + 1))")
    case None
    with assms(2) have "s' = ?s1" by (simp add: finalizeAndAdvance_def Let_def)
    with d1 show ?thesis by simp
  next
    case (Some n)
    let ?s2 = "?s1\<lparr>currentIndex := int n\<rparr>"
    from Some assms(2) have s': "s' = setCurrentTask ?s2 ((tasks ?s2 ! n)\<lparr>state := AWAITING_UPDATE\<rparr>)"
      by (simp add: finalizeAndAdvance_def Let_def)
    from d1 have "drafted ?s2" by (simp add: drafted_currentIndex)
    then have "drafted (setCurrentTask ?s2 ((tasks ?s2 ! n)\<lparr>state := AWAITING_UPDATE\<rparr>))"
      by (rule drafted_setCurrentTask) simp
    with s' show ?thesis by simp
  qed
qed

lemma dispatch_drafted:
  assumes rng: "inRange s" and dr: "drafted s" and task: "task = tasks s ! nat (currentIndex s)"
    and d: "dispatch post jira store sid s task msg uid = (r, store', tr)"
  shows "store' = store \<or> (\<exists>s'. store' = save store sid s' \<and> drafted s')"
proof -
  from rng have i: "nat (currentIndex s) < length (tasks s)"
    by (simp add: inRange_def nat_less_iff)
  with task have mem: "task \<in> set (tasks s)" by simp
  show ?thesis
  proof (cases "state task")
    case AWAITING_UPDATE
    with d have o: "onAwaitingUpdate post store sid s task msg uid = (r, store', tr)"
      by (simp add: dispatch_def)
    show ?thesis
    proof (cases "generateSummary post msg (title task) uid")
      case (Inl e)
      with o show ?thesis by (simp add: onAwaitingUpdate_def)
    next
      case (Inr raw)
      let ?draft = "if trim raw \<noteq> [] then trim raw else ''Update noted.''"
      let ?t1 = "task\<lparr>draftSummary := Some ?draft\<rparr>"
      let ?t2 = "if saidDone msg then ?t1\<lparr>pendingStatusDone := Some True\<rparr> else ?t1"
      let ?t3 = "?t2\<lparr>state := AWAITING_EDIT_DECISION\<rparr>"
      from o Inr have s: "store' = save store sid (setCurrentTask s ?t3)"
        by (simp add: onAwaitingUpdate_def Let_def)
      have "drafted (setCurrentTask s ?t3)" using dr by (rule drafted_setCurrentTask) simp
      with s show ?thesis by blast
    qed
  next
    case AWAITING_EDIT_DECISION
    with mem dr have tr: "truthy (draftSummary task)" by (auto simp: drafted_def)
    from d AWAITING_EDIT_DECISION
    have o: "onAwaitingEditDecision store sid s task msg = (r, store', tr)"
      by (simp add: dispatch_def)
    show ?thesis
    proof (cases "isAffirmative msg")
      case True
      with o have s: "store' = save store sid (setCurrentTask s (task\<lparr>state := AWAITING_EDIT_INPUT\<rparr>))"
        by (simp add: onAwaitingEditDecision_def Let_def)
      have "drafted (setCurrentTask s (task\<lparr>state := AWAITING_EDIT_INPUT\<rparr>))"
        using dr by (rule drafted_setCurrentTask) (simp add: tr)
      with s show ?thesis by blast
    next
      case False
      with o have s: "store' = save store sid (setCurrentTask s (task\<lparr>state := AWAITING_CONFIRM\<rparr>))"
        by (simp add: onAwaitingEditDecision_def Let_def)
      have "drafted (setCurrentTask s (task\<lparr>state := AWAITING_CONFIRM\<rparr>))"
        using dr by (rule drafted_setCurrentTask) simp
      with s show ?thesis by blast
    qed
  next
    case AWAITING_EDIT_INPUT
    with d have o: "onAwaitingEditInput post store sid s task msg uid = (r, store', tr)"
      by (simp add: dispatch_def)
    show ?thesis
    proof (cases "applyEdits post (draftSummary task) msg uid")
      case (Inl e)
      with o show ?thesis by (simp add: onAwaitingEditInput_def)
    next
      case (Inr raw)
      let ?u = "if trim raw \<noteq> [] then Some (trim raw) else draftSummary task"
      let ?t1 = "task\<lparr>draftSummary := ?u, state := AWAITING_CONFIRM\<rparr>"
      from o Inr have s: "store' = save store sid (setCurrentTask s ?t1)"
        by (simp add: onAwaitingEditInput_def Let_def)
      have "drafted (setCurrentTask s ?t1)" using dr by (rule drafted_setCurrentTask) simp
      with s show ?thesis by blast
    qed
  next
    case AWAITING_CONFIRM
    with d have "onAwaitingConfirm post jira store sid s task msg uid = (r, store', tr)"
      by (simp add: dispatch_def)
    from onAwaitingConfirm_store [OF this]
    consider "store' = store"
      | task1 rp s' where "finalizeAndAdvance s task1 = (rp, s')" "store' = save store sid s'"
      by blast
    then show ?thesis
    proof cases
      case 1
      then show ?thesis by simp
    next
      case (2 task1 rp s')
      from dr 2(1) have "drafted s'" by (rule drafted_finalizeAndAdvance)
      with 2(2) show ?thesis by blast
    qed
  next
    case COMPLETED
    with d show ?thesis by (simp add: dispatch_def)
  qed
qed

lemma handleMessage_drafted:
  assumes inv: "\<forall>x s. store x = Some s \<longrightarrow> drafted s"
    and h: "handleMessage post jira store sid msg uid = (r, store', tr)"
    and x: "store' x = Some s'"
  shows "drafted s'"
proof -
  from handleMessage_cases [OF h]
  consider "store' = store"
    | s s1 store1 where "store sid = Some s" "tasks s \<noteq> []"
        "indexDriftGuard store sid s = (s1, store1)"
        "dispatch post jira store1 sid s1 (tasks s1 ! nat (currentIndex s1)) msg uid =
           (r, store', tr)"
    by blast
  then show ?thesis
  proof cases
    case 1
    with x inv show ?thesis by simp
  next
    case (2 s s1 store1)
    from indexDriftGuard_cases [OF 2(2) 2(3)]
    have rng: "inRange s1" and ts: "tasks s1 = tasks s"
      and st1: "store1 = store \<or> store1 = save store sid s1" by simp_all
    from 2(1) inv have "drafted s" by simp
    with ts have dr: "drafted s1" by (simp add: drafted_def)
    have one: "store1 y = Some z \<Longrightarrow> drafted z" for y z
      using st1 inv dr by (cases "y = sid") (auto simp: drafted_persisted)
    from dispatch_drafted [OF rng dr refl 2(4)]
    consider "store' = store1" | s3 where "store' = save store1 sid s3" "drafted s3" by blast
    then show ?thesis
    proof cases
      case 1
      with x one show ?thesis by simp
    next
      case (2 s3)
      with x one show ?thesis by (cases "x = sid") (auto simp: drafted_persisted)
    qed
  qed
qed

lemma reachable_drafted:
  "reachable store \<Longrightarrow> \<forall>x s. store x = Some s \<longrightarrow> drafted s"
proof (induction rule: reachable.induct)
  case emptyStore
  then show ?case by simp
next
  case (started store jira newId uid r store')
  show ?case
  proof (intro allI impI)
    fix x s assume x: "store' x = Some s"
    from started.hyps(2) have "store' = store \<or>
        (\<exists>pending. store' = save store newId
           \<lparr>userId = uid, currentIndex = 0, tasks = map newTaskState pending\<rparr>)"
      by (auto simp: startSession_def Let_def split: sum.splits)
    moreover have "drafted \<lparr>userId = uid, currentIndex = 0, tasks = map newTaskState pending\<rparr>"
      for pending by (auto simp: drafted_def newTaskState_def)
    ultimately show "drafted s" using x started.IH
      by (cases "x = newId") (auto simp: drafted_persisted)
  qed
next
  case (handled store post jira sessionId userMessage uid r store' tr)
  show ?case
  proof (intro allI impI)
    fix x s assume "store' x = Some s"
    with handled.IH handled.hyps(2) show "drafted s" by (rule handleMessage_drafted)
  qed
qed

lemma handleMessage_guarded:
  assumes "findById store sid = Some s" and "tasks s \<noteq> []"
    and "indexDriftGuard store sid s = (s1, store1)" and "currentTask s1 = Some task"
  shows "handleMessage post jira store sid msg uid = dispatch post jira store1 sid s1 task msg uid"
  using assms by (simp add: handleMessage_def)

text \<open>
  Claim C10, as the code has it. A turn on a session with tasks processes the task at the
  index that the drift guard leaves. On a task in \<open>AWAITING_UPDATE\<close>: when the engine answers
  with a content that is not empty, the turn returns, and the draft summary of the task, in
  the returned and in the stored session, is a non-empty string, the trimmed content, or
  \<open>Update noted.\<close> when the content is only white space; when the engine does not (no or
  empty content, \<open>success: false\<close>, a rejected call), the turn throws without a call of the
  ticket API, and the store is as the drift guard left it: the store of before for a
  session whose index is in range, and with the draft summaries of before in every case. On
  a task in \<open>AWAITING_EDIT_INPUT\<close> the same holds with the previous draft summary in the place
  of \<open>Update noted.\<close>, and the draft summary after the turn is non-empty in every reachable
  store, and whenever the previous one was.
\<close>

theorem C10_draft_summary_after_turn:
  assumes "findById store sid = Some s" and "tasks s \<noteq> []"
    and "indexDriftGuard store sid s = (s1, store1)" and "currentTask s1 = Some task"
    and "handleMessage post jira store sid msg uid = (res, store', tr)"
  shows "(state task = AWAITING_UPDATE \<longrightarrow>
            (\<forall>c. answeredWith post (summaryRequest msg (title task) uid) c \<longrightarrow>
               (\<exists>r s'. res = Inr (r, s') \<and> store' sid = Some (persisted s') \<and>
                  draftSummary (tasks s' ! nat (currentIndex s1)) =
                    Some (if trim c = [] then ''Update noted.'' else trim c) \<and>
                  truthy (draftSummary (tasks s' ! nat (currentIndex s1))) \<and>
                  draftSummary (tasks (persisted s') ! nat (currentIndex s1)) =
                    draftSummary (tasks s' ! nat (currentIndex s1)))) \<and>
            ((\<forall>c. \<not> answeredWith post (summaryRequest msg (title task) uid) c) \<longrightarrow>
               (\<exists>e. res = Inl e) \<and> store' = store1 \<and> tr = [])) \<and>
         (state task = AWAITING_EDIT_INPUT \<longrightarrow>
            (\<forall>c. answeredWith post (editsRequest (draftSummary task) msg uid) c \<longrightarrow>
               (\<exists>r s'. res = Inr (r, s') \<and> store' sid = Some (persisted s') \<and>
                  draftSummary (tasks s' ! nat (currentIndex s1)) =
                    (if trim c = [] then draftSummary task else Some (trim c)) \<and>
                  (reachable store \<or> truthy (draftSummary task) \<longrightarrow>
                     truthy (draftSummary (tasks s' ! nat (currentIndex s1)))) \<and>
                  draftSummary (tasks (persisted s') ! nat (currentIndex s1)) =
                    draftSummary (tasks s' ! nat (currentIndex s1)))) \<and>
            ((\<forall>c. \<not> answeredWith post (editsRequest (draftSummary task) msg uid) c) \<longrightarrow>
               (\<exists>e. res = Inl e) \<and> store' = store1 \<and> tr = [])) \<and>
         (inRange s \<longrightarrow> store1 = store) \<and>
         (\<exists>s0. store1 sid = Some s0 \<and> map draftSummary (tasks s0) = map draftSummary (tasks s))"
proof -
  let ?i = "nat (currentIndex s1)"
  from assms(4) have rng: "inRange s1" by (rule currentTask_inRange)
  then have i: "?i < length (tasks s1)" by (simp add: inRange_def nat_less_iff)
  from assms(4) have task: "task = tasks s1 ! ?i" by (simp add: currentTask_Some)
  from indexDriftGuard_cases [OF assms(2) assms(3)]
  have ts: "tasks s1 = tasks s" and st1: "store1 = store \<or> store1 = save store sid s1"
    by simp_all
  from handleMessage_guarded [OF assms(1-4)] assms(5)
  have d: "dispatch post jira store1 sid s1 task msg uid = (res, store', tr)" by simp
  have u1: "\<exists>r s'. res = Inr (r, s') \<and> store' sid = Some (persisted s') \<and>
        draftSummary (tasks s' ! ?i) = Some (if trim c = [] then ''Update noted.'' else trim c) \<and>
        truthy (draftSummary (tasks s' ! ?i)) \<and>
        draftSummary (tasks (persisted s') ! ?i) = draftSummary (tasks s' ! ?i)"
    if st: "state task = AWAITING_UPDATE"
      and a: "answeredWith post (summaryRequest msg (title task) uid) c" for c
  proof -
    from d st have "onAwaitingUpdate post store1 sid s1 task msg uid = (res, store', tr)"
      by (simp add: dispatch_def)
    from onAwaitingUpdate_answered [OF a rng this] obtain r s' where
      r: "res = Inr (r, s')" "store' = save store1 sid s'"
         "draftSummary (tasks s' ! ?i) = Some (if trim c = [] then ''Update noted.'' else trim c)"
      by blast
    from r(1) d st have "length (tasks s') = length (tasks s1)"
      by (auto simp: dispatch_def onAwaitingUpdate_def Let_def setCurrentTask_def
          split: sum.splits)
    with i have p: "draftSummary (tasks (persisted s') ! ?i) = draftSummary (tasks s' ! ?i)"
      by (simp add: persisted_draftSummary)
    from r(3) have "truthy (draftSummary (tasks s' ! ?i))" by simp
    with r p show ?thesis by auto
  qed
  have u2: "(\<exists>e. res = Inl e) \<and> store' = store1 \<and> tr = []"
    if st: "state task = AWAITING_UPDATE"
      and a: "\<forall>c. \<not> answeredWith post (summaryRequest msg (title task) uid) c"
  proof -
    from d st have "onAwaitingUpdate post store1 sid s1 task msg uid = (res, store', tr)"
      by (simp add: dispatch_def)
    with a show ?thesis by (rule onAwaitingUpdate_unanswered)
  qed
  have e1: "\<exists>r s'. res = Inr (r, s') \<and> store' sid = Some (persisted s') \<and>
        draftSummary (tasks s' ! ?i) = (if trim c = [] then draftSummary task else Some (trim c)) \<and>
        (reachable store \<or> truthy (draftSummary task) \<longrightarrow> truthy (draftSummary (tasks s' ! ?i))) \<and>
        draftSummary (tasks (persisted s') ! ?i) = draftSummary (tasks s' ! ?i)"
    if st: "state task = AWAITING_EDIT_INPUT"
      and a: "answeredWith post (editsRequest (draftSummary task) msg uid) c" for c
  proof -
    from d st have "onAwaitingEditInput post store1 sid s1 task msg uid = (res, store', tr)"
      by (simp add: dispatch_def)
    from onAwaitingEditInput_answered [OF a rng this] obtain r s' where
      r: "res = Inr (r, s')" "store' = save store1 sid s'"
         "draftSummary (tasks s' ! ?i) = (if trim c = [] then draftSummary task else Some (trim c))"
      by blast
    from r(1) d st have "length (tasks s') = length (tasks s1)"
      by (auto simp: dispatch_def onAwaitingEditInput_def Let_def setCurrentTask_def
          split: sum.splits)
    with i have p: "draftSummary (tasks (persisted s') ! ?i) = draftSummary (tasks s' ! ?i)"
      by (simp add: persisted_draftSummary)
    have before: "truthy (draftSummary task)" if "reachable store"
    proof -
      from that assms(1) have "drafted s" using reachable_drafted by (simp add: findById_def)
      moreover from task i ts have "task \<in> set (tasks s)" by simp
      ultimately show ?thesis using st by (auto simp: drafted_def)
    qed
    have "reachable store \<or> truthy (draftSummary task) \<longrightarrow> truthy (draftSummary (tasks s' ! ?i))"
      using before r(3) by auto
    with r p show ?thesis by auto
  qed
  have e2: "(\<exists>e. res = Inl e) \<and> store' = store1 \<and> tr = []"
    if st: "state task = AWAITING_EDIT_INPUT"
      and a: "\<forall>c. \<not> answeredWith post (editsRequest (draftSummary task) msg uid) c"
  proof -
    from d st have "onAwaitingEditInput post store1 sid s1 task msg uid = (res, store', tr)"
      by (simp add: dispatch_def)
    with a show ?thesis by (rule onAwaitingEditInput_unanswered)
  qed
  have g1: "inRange s \<longrightarrow> store1 = store"
    using assms(3) by (auto simp: indexDriftGuard_def inRange_def split: if_splits)
  have g2: "\<exists>s0. store1 sid = Some s0 \<and> map draftSummary (tasks s0) = map draftSummary (tasks s)"
    using st1 assms(1) ts by (auto simp: findById_def persisted_def persistedTask_def)
  from u1 u2 e1 e2 g1 g2 show ?thesis by blast
qed

text \<open>
  Claim C10 as stated fails on an empty generation output: \<open>ensureSuccess\<close> throws, the
  turn is aborted, nothing is saved, and the task in \<open>AWAITING_UPDATE\<close> still has no draft
  summary.
\<close>

theorem C10_empty_output_counterexample:
  "handleMessage emptyOutputEngine demoJira demoStore0 ''s1'' ''did some work'' ''u1'' =
     (Inl (Error ''Failed to generate task summary''), demoStore0, []) \<and>
   map_option (map state \<circ> tasks) (demoStore0 ''s1'') = Some [AWAITING_UPDATE] \<and>
   map_option (map draftSummary \<circ> tasks) (demoStore0 ''s1'') = Some [None]"
  unfolding demoStore0_eval
  by (simp add: conv_ev llm_ev str_ev emptyOutputEngine_def demoTask_def)

lemma blank_update_eval:
  "fst (handleMessage blankOutputEngine demoJira demoStore0 ''s1'' ''did some work'' ''u1'') =
     Inr (SummaryGenerated ''Update noted.'', notedSession)"
  unfolding demoStore0_eval
  by (simp add: conv_ev llm_ev str_ev regex_ev blankOutputEngine_def demoTask_def notedSession_def)

lemma blank_edit_eval:
  "fst (handleMessage blankOutputEngine demoJira demoStore ''s6'' ''shorter please'' ''u4'') =
     Inr (SummaryUpdated (Some ''Drafted the notes.''), keptSession)"
  by (simp add: conv_ev llm_ev str_ev codeUnit_def blankOutputEngine_def demo_store_ev
      keptSession_def)

lemma empty_answer:
  "\<forall>c. \<not> answeredWith emptyOutputEngine request c"
  by (simp add: answeredWith_def emptyOutputEngine_def)

lemma blank_answer:
  "answeredWith blankOutputEngine request ''   ''"
  by (simp add: answeredWith_def blankOutputEngine_def)

lemma trim_blank: "trim ''   '' = []"
  by (simp add: str_ev codeUnit_def)

text \<open>
  Outside the reachable stores: a hand-made task that waits for the edits without a draft
  keeps none when the output is blank.
\<close>

lemma undrafted_edit_input:
  "fst (handleMessage blankOutputEngine demoJira
          [''s7'' \<mapsto> \<lparr>userId = ''u4'', currentIndex = 0,
                        tasks = [editingTask\<lparr>draftSummary := None\<rparr>]\<rparr>]
          ''s7'' ''shorter please'' ''u4'') =
     Inr (SummaryUpdated None,
          \<lparr>userId = ''u4'', currentIndex = 0,
           tasks = [editingTask\<lparr>draftSummary := None, state := AWAITING_CONFIRM\<rparr>]\<rparr>)"
  by (simp add: conv_ev llm_ev str_ev codeUnit_def blankOutputEngine_def editingTask_def)

text \<open>
  An engine whose output is three spaces, on the started demo session and on the session
  that waits for the edit text; and an engine whose output is empty, on the started demo
  session.
\<close>

theorem C10_draft_summary_after_turn_witness:
  "(\<exists>r s'. fst (handleMessage blankOutputEngine demoJira demoStore0 ''s1'' ''did some work'' ''u1'') =
        Inr (r, s') \<and> draftSummary (tasks s' ! 0) = Some ''Update noted.'') \<and>
   (\<exists>r s'. fst (handleMessage blankOutputEngine demoJira demoStore ''s6'' ''shorter please'' ''u4'') =
        Inr (r, s') \<and> draftSummary (tasks s' ! 0) = Some ''Drafted the notes.'') \<and>
   (\<exists>e. fst (handleMessage emptyOutputEngine demoJira demoStore0 ''s1'' ''did some work'' ''u1'') =
        Inl e) \<and>
   storeAfter (handleMessage emptyOutputEngine demoJira demoStore0 ''s1'' ''did some work'' ''u1'') =
     demoStore0"
proof -
  let ?h1 = "handleMessage blankOutputEngine demoJira demoStore0 ''s1'' ''did some work'' ''u1''"
  let ?h2 = "handleMessage blankOutputEngine demoJira demoStore ''s6'' ''shorter please'' ''u4''"
  let ?h3 = "handleMessage emptyOutputEngine demoJira demoStore0 ''s1'' ''did some work'' ''u1''"
  let ?s1 = "\<lparr>userId = ''u1'', currentIndex = 0, tasks = [demoTask]\<rparr>"
  have f1: "findById demoStore0 ''s1'' = Some ?s1" by (simp add: demoStore0_eval findById_def)
  have n1: "tasks ?s1 \<noteq> []" by simp
  have g1: "indexDriftGuard demoStore0 ''s1'' ?s1 = (?s1, demoStore0)"
    by (simp add: indexDriftGuard_def)
  have c1: "currentTask ?s1 = Some demoTask" by (simp add: currentTask_def)
  have h1: "?h1 = (fst ?h1, storeAfter ?h1, traceOf ?h1)"
    by (simp add: storeAfter_def traceOf_def)
  have s1: "state demoTask = AWAITING_UPDATE" by (simp add: demoTask_def)
  from C10_draft_summary_after_turn [OF f1 n1 g1 c1 h1] s1 blank_answer
  have "\<exists>r s'. fst ?h1 = Inr (r, s') \<and>
      draftSummary (tasks s' ! nat (currentIndex ?s1)) =
        Some (if trim ''   '' = [] then ''Update noted.'' else trim ''   '')"
    by blast
  then have 1: "\<exists>r s'. fst ?h1 = Inr (r, s') \<and> draftSummary (tasks s' ! 0) = Some ''Update noted.''"
    by (simp add: trim_blank)
  have f2: "findById demoStore ''s6'' = Some editSession" by (simp add: demoStore_def findById_def)
  have n2: "tasks editSession \<noteq> []" by (simp add: editSession_def)
  have g2: "indexDriftGuard demoStore ''s6'' editSession = (editSession, demoStore)"
    by (simp add: indexDriftGuard_def editSession_def)
  have c2: "currentTask editSession = Some editingTask"
    by (simp add: currentTask_def editSession_def)
  have h2: "?h2 = (fst ?h2, storeAfter ?h2, traceOf ?h2)"
    by (simp add: storeAfter_def traceOf_def)
  have s2: "state editingTask = AWAITING_EDIT_INPUT" by (simp add: editingTask_def)
  from C10_draft_summary_after_turn [OF f2 n2 g2 c2 h2] s2 blank_answer
  have "\<exists>r s'. fst ?h2 = Inr (r, s') \<and>
      draftSummary (tasks s' ! nat (currentIndex editSession)) =
        (if trim ''   '' = [] then draftSummary editingTask else Some (trim ''   ''))"
    by blast
  then have 2: "\<exists>r s'. fst ?h2 = Inr (r, s') \<and>
      draftSummary (tasks s' ! 0) = Some ''Drafted the notes.''"
    by (simp add: trim_blank editSession_def editingTask_def)
  have h3: "?h3 = (fst ?h3, storeAfter ?h3, traceOf ?h3)"
    by (simp add: storeAfter_def traceOf_def)
  from C10_draft_summary_after_turn [OF f1 n1 g1 c1 h3] s1 empty_answer
  have 3: "(\<exists>e. fst ?h3 = Inl e) \<and> storeAfter ?h3 = demoStore0"
    by blast
  from 1 2 3 show ?thesis by simp
qed

section \<open>The completion flag across turns\<close>

text \<open>
  What is loaded from a reachable store never carries \<open>pendingStatusDone\<close>, so on a loaded
  session the update type is never forced.
\<close>

lemma persisted_no_flag:
  "t \<in> set (tasks (persisted s)) \<Longrightarrow> pendingStatusDone t = None"
  by (auto simp: persisted_def persistedTask_def)

lemma handleMessage_store_entries:
  assumes h: "handleMessage post jira store sid msg uid = (r, store', tr)"
    and x: "store' x = Some s'"
  shows "store x = Some s' \<or> (\<exists>s2. s' = persisted s2)"
proof -
  from handleMessage_cases [OF h]
  consider "store' = store"
    | s s1 store1 where "store sid = Some s" "tasks s \<noteq> []"
        "indexDriftGuard store sid s = (s1, store1)"
        "dispatch post jira store1 sid s1 (tasks s1 ! nat (currentIndex s1)) msg uid =
           (r, store', tr)"
    by blast
  then show ?thesis
  proof cases
    case 1
    with x show ?thesis by simp
  next
    case (2 s s1 store1)
    from indexDriftGuard_cases [OF 2(2) 2(3)]
    have rng: "inRange s1" and st1: "store1 = store \<or> store1 = save store sid s1" by simp_all
    have one: "store1 y = Some z \<Longrightarrow> store y = Some z \<or> (\<exists>s2. z = persisted s2)" for y z
      using st1 by (cases "y = sid") auto
    from dispatch_store [OF rng 2(4)]
    consider "store' = store1" | s3 where "store' = save store1 sid s3" by blast
    then show ?thesis
    proof cases
      case 1
      with x one show ?thesis by simp
    next
      case (2 s3)
      with x one show ?thesis by (cases "x = sid") auto
    qed
  qed
qed

lemma reachable_no_flag:
  "reachable store \<Longrightarrow>
     \<forall>x s. store x = Some s \<longrightarrow> (\<forall>t \<in> set (tasks s). pendingStatusDone t = None)"
proof (induction rule: reachable.induct)
  case emptyStore
  then show ?case by simp
next
  case (started store jira newId uid r store')
  show ?case
  proof (intro allI impI)
    fix x s assume x: "store' x = Some s"
    from started.hyps(2) have "store' = store \<or> (\<exists>s0. store' = save store newId s0)"
      by (auto simp: startSession_def Let_def split: sum.splits)
    with x started.IH show "\<forall>t \<in> set (tasks s). pendingStatusDone t = None"
      by (cases "x = newId") (auto simp: persisted_no_flag)
  qed
next
  case (handled store post jira sessionId userMessage uid r store' tr)
  show ?case
  proof (intro allI impI)
    fix x s assume x: "store' x = Some s"
    from handleMessage_store_entries [OF handled.hyps(2) x] handled.IH
    show "\<forall>t \<in> set (tasks s). pendingStatusDone t = None"
      by (auto simp: persisted_no_flag)
  qed
qed

lemma update_type_never_forced:
  assumes "reachable store" and "findById store sid = Some s" and "currentTask s = Some task"
  shows "effectiveUpdateType task analyzed = analyzed"
proof -
  from assms(3) have "task \<in> set (tasks s)"
    by (auto simp: currentTask_def nat_less_iff split: if_splits)
  with reachable_no_flag [OF assms(1)] assms(2) have "pendingStatusDone task = None"
    by (auto simp: findById_def)
  then show ?thesis by (simp add: effectiveUpdateType_def)
qed

lemma effectiveUpdateType_forced:
  "pendingStatusDone task = Some True \<Longrightarrow> effectiveUpdateType task comment_only = comment_and_status"
  by (simp add: effectiveUpdateType_def)

lemma comment_and_status_commit:
  assumes "status task \<noteq> ''Done''"
    and "commitUpdate jira task comment_and_status uid = (Inr task1, tr)"
  shows "\<exists>transitionId. tr = [(AddComment (taskId task) (draftSummary task), True),
                               (GetTransitionId (taskId task) ''Done'', True),
                               (UpdateStatus (taskId task) transitionId, True)]"
  using commitUpdate_ok [OF assms(2)] assms(1) by (auto dest: commitStatus_ok)

text \<open>
  Claim C1 on the demo conversation. The user reports the work as completed, so the first
  turn sets \<open>pendingStatusDone\<close> on the task in memory; the stored task does not have it.
  The confirming turn loads the stored session, the engine classifies the draft as
  \<open>comment_only\<close>, and the turn adds the comment only: no transition is looked up or
  applied, and the status of the task stays \<open>In Progress\<close>.
\<close>

theorem C1_pending_status_done_not_persisted:
  "saidDone ''completed, added tracking'' \<and>
   map_option (map pendingStatusDone \<circ> tasks) (sessionOf demoTurn1) = Some [Some True] \<and>
   map_option (map pendingStatusDone \<circ> tasks) (storeAfter demoTurn1 ''s1'') = Some [None] \<and>
   map_option (map state \<circ> tasks) (storeAfter demoTurn2 ''s1'') = Some [AWAITING_CONFIRM] \<and>
   isAffirmative ''yes'' \<and>
   demoEngine (analyzeRequest (Some ''Added analytics tracking.'') ''u1'') =
     Inr \<lparr>success = True, generated_content = Some ''comment_only'', error = None,
          error_message = None\<rparr> \<and>
   traceOf demoTurn3 = [(AddComment ''KT-1'' (Some ''Added analytics tracking.''), True)] \<and>
   map_option (map status \<circ> tasks) (storeAfter demoTurn3 ''s1'') = Some [''In Progress'']"
proof -
  have words: "saidDone ''completed, added tracking'' \<and> isAffirmative ''yes''"
    by (simp add: regex_ev)
  have analyzed:
    "demoEngine (analyzeRequest (Some ''Added analytics tracking.'') ''u1'') =
       Inr \<lparr>success = True, generated_content = Some ''comment_only'', error = None,
            error_message = None\<rparr>"
    by (simp add: demoEngine_def analyzeRequest_def)
  have turns:
    "map_option (map pendingStatusDone \<circ> tasks) (sessionOf demoTurn1) = Some [Some True] \<and>
     map_option (map pendingStatusDone \<circ> tasks) (storeAfter demoTurn1 ''s1'') = Some [None] \<and>
     map_option (map state \<circ> tasks) (storeAfter demoTurn2 ''s1'') = Some [AWAITING_CONFIRM] \<and>
     traceOf demoTurn3 = [(AddComment ''KT-1'' (Some ''Added analytics tracking.''), True)] \<and>
     map_option (map status \<circ> tasks) (storeAfter demoTurn3 ''s1'') = Some [''In Progress'']"
    by (simp add: demoTurn1_eval demoTurn2_eval demoTurn3_eval sessionOf_def storeAfter_def
        traceOf_def demoTask_def)
  from words analyzed turns show ?thesis by simp
qed

end
